theory Spec2Isabelle
  imports Main "HOL-Library.AList"
begin

section \<open>Python values, exceptions and strings\<close>

text \<open>
  The program (\<^verbatim>\<open>POTA.py\<close>) keeps its park catalog as a list of Python dicts that
  come either from \<^verbatim>\<open>json.load\<close> or from the dict literal built by the CSV importer.
  A value of that kind is a \<open>pyval\<close>: \<^verbatim>\<open>None\<close>, a bool, an integer, a str, a list or a
  dict with str keys in insertion order. A Python \<^verbatim>\<open>str\<close> is a \<open>string\<close> whose
  characters stand for the code points below 256. JSON numbers with a fraction are
  not represented; every operation below treats a number the same way whatever its
  value.
\<close>

datatype pyval =
    PNone
  | PBool bool
  | PInt int
  | PStr string
  | PList "pyval list"
  | PDict "(string \<times> pyval) list"

datatype pyerror =
    KeyError
  | TypeError
  | ValueError
  | AttributeError
  | JSONDecodeError
  | FileNotFoundError

text \<open>Truth value testing (\<^verbatim>\<open>if x\<close>, \<^verbatim>\<open>not x\<close>).\<close>

fun truthy :: "pyval \<Rightarrow> bool" where
  "truthy PNone = False"
| "truthy (PBool b) = b"
| "truthy (PInt i) = (i \<noteq> 0)"
| "truthy (PStr s) = (s \<noteq> [])"
| "truthy (PList xs) = (xs \<noteq> [])"
| "truthy (PDict d) = (d \<noteq> [])"

text \<open>\<^verbatim>\<open>str.isspace\<close> on one character, for the code points below 256.\<close>

definition is_space :: "char \<Rightarrow> bool" where
  "is_space c =
     (let n = (of_char c :: nat)
      in (9 \<le> n \<and> n \<le> 13) \<or> (28 \<le> n \<and> n \<le> 32) \<or> n = 133 \<or> n = 160)"

text \<open>\<^verbatim>\<open>s.strip()\<close>: leading and trailing whitespace removed.\<close>

definition strip :: "string \<Rightarrow> string" where
  "strip s = rev (dropWhile is_space (rev (dropWhile is_space s)))"

text \<open>\<^verbatim>\<open>s.split(',')\<close>: the pieces between commas; never the empty list.\<close>

fun split_comma :: "string \<Rightarrow> string list" where
  "split_comma [] = [[]]"
| "split_comma (c # cs) =
     (if c = CHR '','' then [] # split_comma cs
      else (case split_comma cs of
              [] \<Rightarrow> [[c]]
            | t # ts \<Rightarrow> (c # t) # ts))"

section \<open>The numeric sort key\<close>

text \<open>
  \<^verbatim>\<open>
  def get_park_number_int(reference):
      match = re.search(r'-(\\d+)', reference)
      return int(match.group(1)) if match else 0
  \<close>
  The pattern is a raw string literal, so its two backslashes reach the regular
  expression engine as they are: the pattern reads a hyphen, then a group made of one
  backslash character (\<open>CHR 0x5C\<close>) followed by one or more letters \<^verbatim>\<open>d\<close>.
  \<open>re_search_group\<close> is \<^verbatim>\<open>re.search\<close> for this pattern: the leftmost position
  where it matches, the run of \<^verbatim>\<open>d\<close> taken greedily, and group 1 of the match.
\<close>

definition backslash :: char where
  "backslash = CHR 0x5C"

fun re_search_group :: "string \<Rightarrow> string option" where
  "re_search_group [] = None"
| "re_search_group (c # cs) =
     (case cs of
        b # d # rest \<Rightarrow>
          if c = CHR ''-'' \<and> b = backslash \<and> d = CHR ''d''
          then Some (b # d # takeWhile (\<lambda>x. x = CHR ''d'') rest)
          else re_search_group cs
      | _ \<Rightarrow> re_search_group cs)"

text \<open>
  \<^verbatim>\<open>int(s)\<close> on a str: surrounding whitespace is dropped, one sign is allowed, then
  decimal digits, where single underscores may stand between digits. Anything else
  raises \<^verbatim>\<open>ValueError\<close>. The whitespace of \<^verbatim>\<open>int\<close> is narrower than that of
  \<^verbatim>\<open>str.strip\<close>: the separators U+001C to U+001F are not dropped.
\<close>

definition int_space :: "char \<Rightarrow> bool" where
  "int_space c =
     (let n = (of_char c :: nat)
      in (9 \<le> n \<and> n \<le> 13) \<or> n = 32 \<or> n = 133 \<or> n = 160)"

definition is_digit :: "char \<Rightarrow> bool" where
  "is_digit c = (let n = (of_char c :: nat) in 48 \<le> n \<and> n \<le> 57)"

fun digits_ok :: "string \<Rightarrow> bool" where
  "digits_ok [] = False"
| "digits_ok [c] = is_digit c"
| "digits_ok (c # u # cs) =
     (is_digit c \<and> (if u = CHR ''_'' then digits_ok cs else digits_ok (u # cs)))"

fun digits_value :: "string \<Rightarrow> int \<Rightarrow> int" where
  "digits_value [] acc = acc"
| "digits_value (c # cs) acc =
     (if c = CHR ''_'' then digits_value cs acc
      else digits_value cs (10 * acc + (int (of_char c) - 48)))"

definition py_int :: "string \<Rightarrow> pyerror + int" where
  "py_int s =
     (let t = rev (dropWhile int_space (rev (dropWhile int_space s)));
          neg = (t \<noteq> [] \<and> hd t = CHR ''-'');
          ds = (if t \<noteq> [] \<and> (hd t = CHR ''-'' \<or> hd t = CHR ''+'') then tl t else t)
      in if digits_ok ds
         then Inr (if neg then - digits_value ds 0 else digits_value ds 0)
         else Inl ValueError)"

definition get_park_number_int :: "string \<Rightarrow> pyerror + int" where
  "get_park_number_int reference =
     (case re_search_group reference of
        Some g \<Rightarrow> py_int g
      | None \<Rightarrow> Inr 0)"

section \<open>Constants\<close>

text \<open>
  \<^verbatim>\<open>PROVINCE_MAP\<close>: province code to province name. The names are written in
  Chinese in the source; here each is the list of its code points. Only the keys
  take part in the import and in the selector's user data.
\<close>

definition PROVINCE_MAP :: "(string \<times> nat list) list" where
  "PROVINCE_MAP =
    [(''CN-AH'', [0x5b89, 0x5fbd]), (''CN-BJ'', [0x5317, 0x4eac]),
     (''CN-CQ'', [0x91cd, 0x5e86]), (''CN-FJ'', [0x798f, 0x5efa]),
     (''CN-GD'', [0x5e7f, 0x4e1c]), (''CN-GS'', [0x7518, 0x8083]),
     (''CN-GX'', [0x5e7f, 0x897f]), (''CN-GZ'', [0x8d35, 0x5dde]),
     (''CN-HA'', [0x6cb3, 0x5357]), (''CN-HB'', [0x6e56, 0x5317]),
     (''CN-HE'', [0x6cb3, 0x5317]), (''CN-HI'', [0x6d77, 0x5357]),
     (''CN-HK'', [0x9999, 0x6e2f]), (''CN-HL'', [0x9ed1, 0x9f99, 0x6c5f]),
     (''CN-HN'', [0x6e56, 0x5357]), (''CN-JL'', [0x5409, 0x6797]),
     (''CN-JS'', [0x6c5f, 0x82cf]), (''CN-JX'', [0x6c5f, 0x897f]),
     (''CN-LN'', [0x8fbd, 0x5b81]), (''CN-MO'', [0x6fb3, 0x95e8]),
     (''CN-NM'', [0x5185, 0x8499, 0x53e4]), (''CN-NX'', [0x5b81, 0x590f]),
     (''CN-QH'', [0x9752, 0x6d77]), (''CN-SC'', [0x56db, 0x5ddd]),
     (''CN-SD'', [0x5c71, 0x4e1c]), (''CN-SH'', [0x4e0a, 0x6d77]),
     (''CN-SN'', [0x9655, 0x897f]), (''CN-SX'', [0x5c71, 0x897f]),
     (''CN-TJ'', [0x5929, 0x6d25]), (''CN-TW'', [0x53f0, 0x6e7e]),
     (''CN-XJ'', [0x65b0, 0x7586]), (''CN-XZ'', [0x897f, 0x85cf]),
     (''CN-YN'', [0x4e91, 0x5357]), (''CN-ZJ'', [0x6d59, 0x6c5f])]"

text \<open>\<^verbatim>\<open>c in PROVINCE_MAP\<close>: membership among the keys.\<close>

definition in_PROVINCE_MAP :: "string \<Rightarrow> bool" where
  "in_PROVINCE_MAP c = (c \<in> set (map fst PROVINCE_MAP))"

definition PARKS_DATA_FILE :: string where
  "PARKS_DATA_FILE = ''parks_data.json''"

definition CONFIG_FILE :: string where
  "CONFIG_FILE = ''config.json''"

section \<open>Operations on Python values\<close>

text \<open>
  \<^verbatim>\<open>p[k]\<close> with a str key: a dict answers or raises \<^verbatim>\<open>KeyError\<close>; a list or a str
  wants an integer index, the other values are not subscriptable
  (\<^verbatim>\<open>TypeError\<close>).
\<close>

fun subscript :: "pyval \<Rightarrow> string \<Rightarrow> pyerror + pyval" where
  "subscript (PDict d) k = (case map_of d k of None \<Rightarrow> Inl KeyError | Some v \<Rightarrow> Inr v)"
| "subscript _ k = Inl TypeError"

text \<open>
  \<^verbatim>\<open>p[k] = v\<close> with a str key: a dict keeps the key's place when it has the key and
  appends it otherwise; every other value raises \<^verbatim>\<open>TypeError\<close>.
\<close>

fun setitem :: "pyval \<Rightarrow> string \<Rightarrow> pyval \<Rightarrow> pyerror + pyval" where
  "setitem (PDict d) k v = Inr (PDict (AList.update k v d))"
| "setitem _ k v = Inl TypeError"

text \<open>\<^verbatim>\<open>d.get(k, default)\<close> on the items of a dict.\<close>

definition dict_get :: "(string \<times> pyval) list \<Rightarrow> string \<Rightarrow> pyval \<Rightarrow> pyval" where
  "dict_get d k dflt = (case map_of d k of None \<Rightarrow> dflt | Some v \<Rightarrow> v)"

text \<open>\<^verbatim>\<open>p.get(k, default)\<close> on any value: only a dict has the method.\<close>

fun py_get :: "pyval \<Rightarrow> string \<Rightarrow> pyval \<Rightarrow> pyerror + pyval" where
  "py_get (PDict d) k dflt = Inr (dict_get d k dflt)"
| "py_get _ k dflt = Inl AttributeError"

text \<open>\<^verbatim>\<open>s in t\<close> for two strs: \<open>s\<close> occurs in \<open>t\<close> as a contiguous piece.\<close>

fun is_substring :: "string \<Rightarrow> string \<Rightarrow> bool" where
  "is_substring s [] = (s = [])"
| "is_substring s (c # cs) = (take (length s) (c # cs) = s \<or> is_substring s cs)"

text \<open>
  \<^verbatim>\<open>code in v\<close> for a str \<open>code\<close>: an element of a list, a piece of a str, a key of
  a dict; \<^verbatim>\<open>None\<close>, bools and numbers are not iterable (\<^verbatim>\<open>TypeError\<close>).
\<close>

fun py_contains :: "string \<Rightarrow> pyval \<Rightarrow> pyerror + bool" where
  "py_contains code (PList xs) = Inr (PStr code \<in> set xs)"
| "py_contains code (PStr s) = Inr (is_substring code s)"
| "py_contains code (PDict d) = Inr (code \<in> set (map fst d))"
| "py_contains code _ = Inl TypeError"

text \<open>Whether a value can be a dict key: lists and dicts are unhashable.\<close>

fun hashable :: "pyval \<Rightarrow> bool" where
  "hashable (PList xs) = False"
| "hashable (PDict d) = False"
| "hashable _ = True"

section \<open>The application state\<close>

text \<open>
  A JSON file on disk is represented by what \<^verbatim>\<open>json.load\<close> makes of its text:
  \<open>Malformed\<close> when it raises \<^verbatim>\<open>JSONDecodeError\<close>, \<open>Json v\<close> when it returns
  \<open>v\<close>; \<^verbatim>\<open>json.dump\<close> of \<open>v\<close> writes \<open>Json v\<close>. A message box is represented by
  its kind and the values formatted into its text.
\<close>

datatype json_file = Malformed | Json pyval

datatype msgbox =
    NotFoundWarning string
  | ActivatedInformation string string

text \<open>
  The fields of \<^verbatim>\<open>PotaLogbookApp\<close> that the operations read and write
  (\<open>all_parks\<close>, \<open>config\<close>), the user data of the province selector's current item
  (\<open>current_code\<close>, \<open>None\<close> for "all provinces"), the list last handed to the table
  model by \<^verbatim>\<open>update_data\<close> (\<open>table_data\<close>, a copy: what \<^verbatim>\<open>prompt_activation\<close>
  changes in a record reaches it with the \<^verbatim>\<open>update_data\<close> call that follows, whereas
  the program's table shares the record and shows the change at once, also when that
  call is not reached), the files in the working
  directory (\<open>disk\<close>), the names of the files written so far, latest first
  (\<open>written\<close>), and the message boxes shown so far, latest first (\<open>shown\<close>).
  An operation returns the state it leaves behind together with its result, so that
  what an exception leaves changed stays visible.
\<close>

record app =
  all_parks :: "pyval list"
  config :: pyval
  current_code :: "string option"
  table_data :: "pyval list"
  disk :: "(string \<times> json_file) list"
  written :: "string list"
  shown :: "msgbox list"

section \<open>Configuration and catalog files\<close>

text \<open>
  \<^verbatim>\<open>
  def save_config(self):
      with open(CONFIG_FILE, 'w', encoding='utf-8') as f:
          json.dump(self.config, f, ensure_ascii=False, indent=4)
  \<close>
\<close>

definition save_config :: "app \<Rightarrow> app" where
  "save_config w =
     w\<lparr>disk := AList.update CONFIG_FILE (Json (config w)) (disk w),
       written := CONFIG_FILE # written w\<rparr>"

text \<open>
  \<^verbatim>\<open>
  def load_parks_from_json(self):
      if os.path.exists(PARKS_DATA_FILE):
          with open(PARKS_DATA_FILE, 'r', encoding='utf-8') as f:
              data = json.load(f)
              if isinstance(data, list):
                  self.all_parks = data
  \<close>
\<close>

definition load_parks_from_json :: "app \<Rightarrow> (pyerror + unit) \<times> app" where
  "load_parks_from_json w =
     (case map_of (disk w) PARKS_DATA_FILE of
        None \<Rightarrow> (Inr (), w)
      | Some Malformed \<Rightarrow> (Inl JSONDecodeError, w)
      | Some (Json data) \<Rightarrow>
          (case data of
             PList xs \<Rightarrow> (Inr (), w\<lparr>all_parks := xs\<rparr>)
           | _ \<Rightarrow> (Inr (), w)))"

text \<open>
  \<^verbatim>\<open>
  def save_parks_to_json(self):
      with open(PARKS_DATA_FILE, 'w', encoding='utf-8') as f:
          json.dump(self.all_parks, f, ensure_ascii=False, indent=4)
  \<close>
\<close>

definition save_parks_to_json :: "app \<Rightarrow> app" where
  "save_parks_to_json w =
     w\<lparr>disk := AList.update PARKS_DATA_FILE (Json (PList (all_parks w))) (disk w),
       written := PARKS_DATA_FILE # written w\<rparr>"

section \<open>Filtering\<close>

text \<open>
  \<^verbatim>\<open>[p for p in self.all_parks if code in p['provinces']]\<close>: the records are visited
  in order and the first one whose test raises ends the comprehension.
\<close>

fun filter_by_code :: "string \<Rightarrow> pyval list \<Rightarrow> pyerror + pyval list" where
  "filter_by_code code [] = Inr []"
| "filter_by_code code (p # ps) =
     (case subscript p ''provinces'' of
        Inl e \<Rightarrow> Inl e
      | Inr v \<Rightarrow>
          (case py_contains code v of
             Inl e \<Rightarrow> Inl e
           | Inr b \<Rightarrow>
               (case filter_by_code code ps of
                  Inl e \<Rightarrow> Inl e
                | Inr rest \<Rightarrow> Inr (if b then p # rest else rest))))"

text \<open>
  \<^verbatim>\<open>
  def update_activation_buttons(self):
      for row in range(self.proxy_model.rowCount()):
          idx = self.proxy_model.index(row, 3)
          park = self.proxy_model.sourceModel()._data[self.proxy_model.mapToSource(idx).row()]
          if not park.get('activated', False):
              btn = QPushButton(...)
              btn.clicked.connect(lambda checked=False, ref=park['reference']: ...)
              self.park_table_view.setIndexWidget(idx, btn)
          else:
              self.park_table_view.setIndexWidget(idx, None)
  \<close>
  The widgets are not modelled; the reads of the displayed records are, since they can
  raise. The rows are taken in the order of the table model's list.
\<close>

fun update_activation_buttons :: "pyval list \<Rightarrow> pyerror + unit" where
  "update_activation_buttons [] = Inr ()"
| "update_activation_buttons (park # rest) =
     (case py_get park ''activated'' (PBool False) of
        Inl e \<Rightarrow> Inl e
      | Inr a \<Rightarrow>
          if \<not> truthy a
          then (case subscript park ''reference'' of
                  Inl e \<Rightarrow> Inl e
                | Inr r \<Rightarrow> update_activation_buttons rest)
          else update_activation_buttons rest)"

text \<open>
  \<^verbatim>\<open>
  def filter_parks(self):
      code = self.province_combo.currentData()
      self.config["last_province_code"] = code
      self.save_config()
      parks = self.all_parks if code is None else [p for p in self.all_parks if code in p['provinces']]
      self.park_table_model.update_data(parks)
      self.update_activation_buttons()
  \<close>
\<close>

definition filter_parks :: "app \<Rightarrow> (pyerror + unit) \<times> app" where
  "filter_parks w =
     (let code = current_code w in
      case setitem (config w) ''last_province_code''
             (case code of None \<Rightarrow> PNone | Some c \<Rightarrow> PStr c) of
        Inl e \<Rightarrow> (Inl e, w)
      | Inr cfg \<Rightarrow>
          (let w1 = save_config (w\<lparr>config := cfg\<rparr>) in
           case (case code of
                   None \<Rightarrow> Inr (all_parks w1)
                 | Some c \<Rightarrow> filter_by_code c (all_parks w1)) of
             Inl e \<Rightarrow> (Inl e, w1)
           | Inr parks \<Rightarrow>
               (update_activation_buttons parks, w1\<lparr>table_data := parks\<rparr>)))"

section \<open>CSV import\<close>

text \<open>
  A CSV file is represented by the rows \<^verbatim>\<open>csv.DictReader\<close> delivers for it, each row
  by its column names with their str values: \<^verbatim>\<open>row.get(k)\<close> is \<open>map_of row k\<close>,
  \<open>None\<close> where the column is missing or the row is too short to reach it.
\<close>

type_synonym csv_row = "(string \<times> string) list"

text \<open>\<^verbatim>\<open>not x\<close> for the result of \<^verbatim>\<open>row.get\<close>: \<^verbatim>\<open>None\<close> or the empty str.\<close>

fun blank :: "string option \<Rightarrow> bool" where
  "blank None = True"
| "blank (Some s) = (s = [])"

text \<open>
  \<^verbatim>\<open>[c.strip() for c in desc.split(',') if c.strip() in PROVINCE_MAP]\<close>
\<close>

definition provinces_of :: "string \<Rightarrow> string list" where
  "provinces_of desc =
     map strip (filter (\<lambda>c. in_PROVINCE_MAP (strip c)) (split_comma desc))"

text \<open>
  \<^verbatim>\<open>existing = {p['reference']: p for p in self.all_parks}\<close>: a later record with
  the same reference replaces the earlier one's value and keeps its place. Only a
  dict passes \<^verbatim>\<open>p['reference']\<close>, so the values are kept as the items of those dicts.
  Keys are compared as values of \<open>pyval\<close>; Python also takes \<^verbatim>\<open>True\<close> and \<^verbatim>\<open>1\<close> for
  one key, which no lookup with a str key can tell.
\<close>

type_synonym existing = "(pyval \<times> (string \<times> pyval) list) list"

fun build_existing :: "pyval list \<Rightarrow> existing \<Rightarrow> pyerror + existing" where
  "build_existing [] acc = Inr acc"
| "build_existing (p # ps) acc =
     (case p of
        PDict d \<Rightarrow>
          (case map_of d ''reference'' of
             None \<Rightarrow> Inl KeyError
           | Some k \<Rightarrow>
               if hashable k then build_existing ps (AList.update k d acc)
               else Inl TypeError)
      | _ \<Rightarrow> Inl TypeError)"

text \<open>
  The dict literal appended for one row:
  \<^verbatim>\<open>
  {'reference': ref, 'name': name, 'provinces': provinces,
   'activated': exist.get('activated', False),
   'activation_time': exist.get('activation_time', None)}
  \<close>
  with \<open>exist\<close> being \<^verbatim>\<open>existing.get(ref, {})\<close>.
\<close>

definition park_dict :: "string \<Rightarrow> string \<Rightarrow> string list \<Rightarrow> pyval \<Rightarrow> pyval \<Rightarrow> pyval" where
  "park_dict ref name provinces activated activation_time =
     PDict
       [(''reference'', PStr ref),
        (''name'', PStr name),
        (''provinces'', PList (map PStr provinces)),
        (''activated'', activated),
        (''activation_time'', activation_time)]"

definition new_record :: "existing \<Rightarrow> string \<Rightarrow> string \<Rightarrow> string \<Rightarrow> pyval" where
  "new_record ex ref name desc =
     (let provinces = provinces_of desc;
          exist = (case map_of ex (PStr ref) of None \<Rightarrow> [] | Some d \<Rightarrow> d)
      in park_dict ref name provinces
           (dict_get exist ''activated'' (PBool False))
           (dict_get exist ''activation_time'' PNone))"

text \<open>The loop over the rows, with \<^verbatim>\<open>new_list\<close> and \<^verbatim>\<open>processed_count\<close>.\<close>

fun import_rows :: "existing \<Rightarrow> csv_row list \<Rightarrow> pyval list \<Rightarrow> nat \<Rightarrow> pyval list \<times> nat" where
  "import_rows ex [] new_list processed_count = (new_list, processed_count)"
| "import_rows ex (row # rows) new_list processed_count =
     (let ref = map_of row ''reference'';
          name = map_of row ''name'';
          desc = map_of row ''locationDesc''
      in if blank ref \<or> blank name \<or> blank desc
         then import_rows ex rows new_list processed_count
         else import_rows ex rows
                (new_list @ [new_record ex (the ref) (the name) (the desc)])
                (processed_count + 1))"

text \<open>
  \<^verbatim>\<open>
  def load_parks_from_csv(self, filename):
      existing = {p['reference']: p for p in self.all_parks}
      new_list = []
      processed_count = 0
      with open(filename, 'r', encoding='utf-8-sig') as f:
          reader = csv.DictReader(f)
          for row in reader:
              ...
      self.all_parks = new_list
      return processed_count
  \<close>
  The file argument is \<open>None\<close> when \<^verbatim>\<open>open\<close> fails and the rows otherwise.
\<close>

definition load_parks_from_csv :: "csv_row list option \<Rightarrow> app \<Rightarrow> (pyerror + nat) \<times> app" where
  "load_parks_from_csv file w =
     (case build_existing (all_parks w) [] of
        Inl e \<Rightarrow> (Inl e, w)
      | Inr ex \<Rightarrow>
          (case file of
             None \<Rightarrow> (Inl FileNotFoundError, w)
           | Some rows \<Rightarrow>
               (let r = import_rows ex rows [] 0
                in (Inr (snd r), w\<lparr>all_parks := fst r\<rparr>))))"

section \<open>Activation\<close>

text \<open>
  \<^verbatim>\<open>next((p for p in self.all_parks if p['reference'] == park_ref), None)\<close>: the
  position of the first record whose reference equals \<open>park_ref\<close>, a str.
\<close>

fun find_park :: "string \<Rightarrow> pyval list \<Rightarrow> pyerror + nat option" where
  "find_park park_ref [] = Inr None"
| "find_park park_ref (p # ps) =
     (case subscript p ''reference'' of
        Inl e \<Rightarrow> Inl e
      | Inr v \<Rightarrow>
          if v = PStr park_ref then Inr (Some 0)
          else (case find_park park_ref ps of
                  Inl e \<Rightarrow> Inl e
                | Inr None \<Rightarrow> Inr None
                | Inr (Some i) \<Rightarrow> Inr (Some (Suc i))))"

text \<open>
  \<^verbatim>\<open>
  def prompt_activation(self, park_ref):
      park = next((p for p in self.all_parks if p['reference'] == park_ref), None)
      if not park:
          QMessageBox.warning(self, ..., f"... {park_ref}")
          return
      dlg = ActivationDialog(park_ref, park['name'], self)
      if dlg.exec():
          park['activated'] = True
          park['activation_time'] = dlg.activation_time
          self.save_parks_to_json()
          self.filter_parks()
          QMessageBox.information(self, ..., f"... {park_ref} ...{dlg.activation_time}")
  \<close>
  The dialog is represented by its outcome \<open>dlg\<close>: \<open>None\<close> when it is rejected,
  \<open>Some date\<close> when it is accepted with the date str it formats. The record is
  changed in place, at its position in \<open>all_parks\<close>.
\<close>

definition activate_record :: "pyval \<Rightarrow> string \<Rightarrow> pyerror + pyval" where
  "activate_record park date =
     (case setitem park ''activated'' (PBool True) of
        Inl e \<Rightarrow> Inl e
      | Inr park1 \<Rightarrow> setitem park1 ''activation_time'' (PStr date))"

definition prompt_activation :: "string \<Rightarrow> string option \<Rightarrow> app \<Rightarrow> (pyerror + unit) \<times> app" where
  "prompt_activation park_ref dlg w =
     (case find_park park_ref (all_parks w) of
        Inl e \<Rightarrow> (Inl e, w)
      | Inr None \<Rightarrow> (Inr (), w\<lparr>shown := NotFoundWarning park_ref # shown w\<rparr>)
      | Inr (Some i) \<Rightarrow>
          (let park = all_parks w ! i in
           if \<not> truthy park
           then (Inr (), w\<lparr>shown := NotFoundWarning park_ref # shown w\<rparr>)
           else
             (case subscript park ''name'' of
                Inl e \<Rightarrow> (Inl e, w)
              | Inr name \<Rightarrow>
                  (case dlg of
                     None \<Rightarrow> (Inr (), w)
                   | Some date \<Rightarrow>
                       (case activate_record park date of
                          Inl e \<Rightarrow> (Inl e, w)
                        | Inr park' \<Rightarrow>
                            (let w1 = save_parks_to_json
                                        (w\<lparr>all_parks := (all_parks w)[i := park']\<rparr>);
                                 r = filter_parks w1
                             in case fst r of
                                  Inl e \<Rightarrow> (Inl e, snd r)
                                | Inr u \<Rightarrow>
                                    (Inr (),
                                     (snd r)\<lparr>shown :=
                                        ActivatedInformation park_ref date # shown (snd r)\<rparr>)))))))"

section \<open>Vocabulary of the specification\<close>

text \<open>
  \<open>field k p\<close> reads the field \<open>k\<close> of a record, \<open>None\<close> where \<open>p\<close> is not a dict or
  has no such key; \<open>items p\<close> are the items of a dict.
\<close>

definition field :: "string \<Rightarrow> pyval \<Rightarrow> pyval option" where
  "field k p = (case p of PDict d \<Rightarrow> map_of d k | _ \<Rightarrow> None)"

fun items :: "pyval \<Rightarrow> (string \<times> pyval) list" where
  "items (PDict d) = d"
| "items _ = []"

text \<open>
  A Park record of the data model: a dict with a str \<open>reference\<close>, a str \<open>name\<close>,
  a list of strs \<open>provinces\<close>, a bool \<open>activated\<close> and an \<open>activation_time\<close> that
  is a str or \<^verbatim>\<open>None\<close>.
\<close>

fun is_str :: "pyval \<Rightarrow> bool" where
  "is_str (PStr s) = True"
| "is_str _ = False"

fun is_bool :: "pyval \<Rightarrow> bool" where
  "is_bool (PBool b) = True"
| "is_bool _ = False"

fun is_str_list :: "pyval \<Rightarrow> bool" where
  "is_str_list (PList xs) = list_all is_str xs"
| "is_str_list _ = False"

fun is_str_or_none :: "pyval \<Rightarrow> bool" where
  "is_str_or_none PNone = True"
| "is_str_or_none (PStr s) = True"
| "is_str_or_none _ = False"

fun is_list :: "pyval \<Rightarrow> bool" where
  "is_list (PList xs) = True"
| "is_list _ = False"

definition has_field :: "(pyval \<Rightarrow> bool) \<Rightarrow> string \<Rightarrow> pyval \<Rightarrow> bool" where
  "has_field P k p = (case field k p of None \<Rightarrow> False | Some v \<Rightarrow> P v)"

definition is_park :: "pyval \<Rightarrow> bool" where
  "is_park p =
     (has_field is_str ''reference'' p \<and> has_field is_str ''name'' p \<and>
      has_field is_str_list ''provinces'' p \<and> has_field is_bool ''activated'' p \<and>
      has_field is_str_or_none ''activation_time'' p)"

text \<open>
  The record invariant of the data model: \<open>activated\<close> is true exactly when
  \<open>activation_time\<close> is there and not \<^verbatim>\<open>None\<close>.
\<close>

definition activation_consistent :: "pyval \<Rightarrow> bool" where
  "activation_consistent p =
     ((field ''activated'' p = Some (PBool True)) =
      (case field ''activation_time'' p of None \<Rightarrow> False | Some t \<Rightarrow> t \<noteq> PNone))"

text \<open>
  A record's \<open>provinces\<close> sequence contains the code \<open>c\<close>.
\<close>

definition has_province :: "string \<Rightarrow> pyval \<Rightarrow> bool" where
  "has_province c p =
     (case field ''provinces'' p of Some (PList xs) \<Rightarrow> PStr c \<in> set xs | _ \<Rightarrow> False)"

text \<open>
  A record whose \<open>provinces\<close> can be tested for a code: the field is there and is a
  list, a str or a dict.
\<close>

definition filterable :: "pyval \<Rightarrow> bool" where
  "filterable q =
     (case field ''provinces'' q of
        Some (PList xs) \<Rightarrow> True
      | Some (PStr s) \<Rightarrow> True
      | Some (PDict d) \<Rightarrow> True
      | _ \<Rightarrow> False)"

text \<open>
  The record of the catalog that an import merges with: the last one that carries the
  reference, and the value \<open>carried\<close> forward from it for the key \<open>k\<close> (\<open>dflt\<close> when
  no record carries the reference or the record has no such key).
\<close>

definition last_with_reference :: "string \<Rightarrow> pyval list \<Rightarrow> pyval option" where
  "last_with_reference ref ps = List.find (\<lambda>p. field ''reference'' p = Some (PStr ref)) (rev ps)"

definition carried :: "string \<Rightarrow> pyval \<Rightarrow> pyval list \<Rightarrow> string \<Rightarrow> pyval" where
  "carried k dflt old ref =
     (case last_with_reference ref old of
        None \<Rightarrow> dflt
      | Some p \<Rightarrow> dict_get (items p) k dflt)"

text \<open>
  A field of a row is \<open>missing_or_empty\<close> when the row has no value for the column or
  has the empty str there. A row is skipped when its \<open>reference\<close>, \<open>name\<close> or
  \<open>locationDesc\<close> is missing or empty, and is \<open>row_complete\<close> otherwise;
  \<open>row_record\<close> is the record a complete row produces, and \<open>imported_references\<close> are
  the references of the complete rows, in order.
\<close>

definition missing_or_empty :: "csv_row \<Rightarrow> string \<Rightarrow> bool" where
  "missing_or_empty row k = (map_of row k = None \<or> map_of row k = Some [])"

definition skipped :: "csv_row \<Rightarrow> bool" where
  "skipped row =
     (missing_or_empty row ''reference'' \<or> missing_or_empty row ''name'' \<or>
      missing_or_empty row ''locationDesc'')"

definition row_complete :: "csv_row \<Rightarrow> bool" where
  "row_complete row = (\<not> skipped row)"

definition row_record :: "existing \<Rightarrow> csv_row \<Rightarrow> pyval" where
  "row_record ex row =
     new_record ex (the (map_of row ''reference'')) (the (map_of row ''name''))
       (the (map_of row ''locationDesc''))"

definition imported_references :: "csv_row list \<Rightarrow> string list" where
  "imported_references rows = map (\<lambda>row. the (map_of row ''reference'')) (filter row_complete rows)"

text \<open>
  The provinces of a location description in the words of the specification: the
  description split on commas, each token trimmed, the tokens that are keys of the
  province table kept in order. \<open>join_comma\<close> puts commas back between tokens.
\<close>

definition table_tokens :: "string \<Rightarrow> string list" where
  "table_tokens desc = filter in_PROVINCE_MAP (map strip (split_comma desc))"

fun join_comma :: "string list \<Rightarrow> string" where
  "join_comma [] = []"
| "join_comma [t] = t"
| "join_comma (t # u # ts) = t @ CHR '','' # join_comma (u # ts)"

text \<open>
  The catalog an import of \<open>rows\<close> yields when the reference \<open>r\<close> gets the activation
  fields \<open>A r\<close> and \<open>T r\<close>.
\<close>

definition shaped :: "(string \<Rightarrow> pyval) \<Rightarrow> (string \<Rightarrow> pyval) \<Rightarrow> csv_row list \<Rightarrow> pyval list" where
  "shaped A T rows =
     map (\<lambda>row. park_dict (the (map_of row ''reference'')) (the (map_of row ''name''))
                  (provinces_of (the (map_of row ''locationDesc'')))
                  (A (the (map_of row ''reference''))) (T (the (map_of row ''reference''))))
       (filter row_complete rows)"

text \<open>
  A run of activation requests, each a reference with the outcome of its dialog.
\<close>

fun record_activations :: "(string \<times> string option) list \<Rightarrow> app \<Rightarrow> app" where
  "record_activations [] w = w"
| "record_activations (a # as) w = record_activations as (snd (prompt_activation (fst a) (snd a) w))"

text \<open>
  In a run of activation requests, every request whose dialog is accepted names a
  reference that at most one complete row of the CSV carries.
\<close>

definition activated_once :: "csv_row list \<Rightarrow> (string \<times> string option) list \<Rightarrow> bool" where
  "activated_once rows acts =
     list_all (\<lambda>a. snd a = None \<or> count_list (imported_references rows) (fst a) \<le> 1) acts"

text \<open>
  The state in which \<^verbatim>\<open>__init__\<close> starts in a working directory without files: no
  parks, the empty configuration, the selector on "all provinces". \<open>example_row\<close>
  is the CSV row of the specification's import example.
\<close>

definition initial_app :: app where
  "initial_app =
     \<lparr>all_parks = [], config = PDict [], current_code = None, table_data = [],
      disk = [], written = [], shown = []\<rparr>"

definition example_row :: csv_row where
  "example_row =
     [(''reference'', ''CN-0012''), (''name'', ''Test Park''),
      (''locationDesc'', ''Anhui, CN-AH, China'')]"

definition second_row :: csv_row where
  "second_row =
     [(''reference'', ''CN-0002''), (''name'', ''Second Park''), (''locationDesc'', ''CN-BJ'')]"

section \<open>Properties of the sort key\<close>

lemma re_search_group_shape:
  "re_search_group s = Some g \<Longrightarrow> \<exists>r. g = backslash # CHR ''d'' # r \<and> set r \<subseteq> {CHR ''d''}"
proof (induction s rule: re_search_group.induct)
  case 1
  then show ?case by simp
next
  case (2 c cs)
  then show ?case
    by (auto split: list.splits if_splits dest: set_takeWhileD)
qed

lemma not_int_space_backslash: "\<not> int_space backslash"
  by (simp add: int_space_def backslash_def)

lemma trim_keeps_head:
  assumes "\<not> P c"
  shows "\<exists>r. rev (dropWhile P (rev (dropWhile P (c # cs)))) = c # r"
proof -
  have "dropWhile P (rev cs @ [c]) = dropWhile P (rev cs) @ [c]"
    using assms by (simp add: dropWhile_append3)
  then show ?thesis
    using assms by simp
qed

lemma py_int_backslash: "py_int (backslash # cs) = Inl ValueError"
proof -
  obtain r where
    r: "rev (dropWhile int_space (rev (dropWhile int_space (backslash # cs)))) = backslash # r"
    using trim_keeps_head [where P = int_space and c = backslash, OF not_int_space_backslash]
    by blast
  have "\<not> digits_ok (backslash # r)"
    by (cases r) (simp_all add: is_digit_def backslash_def)
  then show ?thesis
    unfolding py_int_def r by (simp add: Let_def backslash_def)
qed

lemma get_park_number_int_range:
  "get_park_number_int s = Inr 0 \<or> get_park_number_int s = Inl ValueError"
proof (cases "re_search_group s")
  case None
  then show ?thesis by (simp add: get_park_number_int_def)
next
  case (Some g)
  then obtain r where "g = backslash # CHR ''d'' # r"
    using re_search_group_shape by blast
  then show ?thesis
    by (simp add: get_park_number_int_def Some py_int_backslash)
qed

text \<open>
  C1 (sort key). The sort key of the reference \<^verbatim>\<open>CN-0012\<close> is 0 in the code, where the stated
  sort key contract (the integer value of the first run of decimal digits after a
  hyphen) gives 12: the doubled backslash of the raw pattern makes it look for a
  backslash character, which no digit run contains. The reference \<^verbatim>\<open>BADREF\<close> has
  key 0, as stated.
\<close>

theorem get_park_number_int_CN_0012:
  "get_park_number_int ''CN-0012'' = Inr 0 \<and> get_park_number_int ''BADREF'' = Inr 0"
  by (simp add: get_park_number_int_def)

section \<open>Strings and dicts\<close>

lemma split_comma_not_Nil: "split_comma s \<noteq> []"
  by (induction s) (simp_all split: list.splits)

lemma split_comma_no_comma: "t \<in> set (split_comma s) \<Longrightarrow> CHR '','' \<notin> set t"
  by (induction s arbitrary: t) (auto split: if_splits list.splits)

lemma split_comma_join: "join_comma (split_comma s) = s"
proof (induction s)
  case Nil
  then show ?case by simp
next
  case (Cons c cs)
  obtain u us where us: "split_comma cs = u # us"
    using split_comma_not_Nil [of cs] by (cases "split_comma cs") auto
  show ?case
    using Cons us by (cases us) auto
qed

lemma strip_decompose:
  "\<exists>l r. s = l @ strip s @ r \<and> list_all is_space l \<and> list_all is_space r"
proof -
  let ?m = "dropWhile is_space s"
  let ?l = "takeWhile is_space s"
  let ?r = "rev (takeWhile is_space (rev ?m))"
  have "rev (takeWhile is_space (rev ?m) @ dropWhile is_space (rev ?m)) = rev (rev ?m)"
    by (simp only: takeWhile_dropWhile_id)
  then have m: "?m = strip s @ ?r"
    by (simp only: rev_append rev_rev_ident strip_def)
  have "s = ?l @ ?m" by simp
  with m have "s = ?l @ strip s @ ?r" by simp
  moreover have "list_all is_space ?l"
    by (auto simp: list_all_iff dest: set_takeWhileD)
  moreover have "list_all is_space ?r"
    by (auto simp: list_all_iff dest: set_takeWhileD)
  ultimately show ?thesis by blast
qed

lemma last_dropWhile: "dropWhile P xs \<noteq> [] \<Longrightarrow> last (dropWhile P xs) = last xs"
  by (induction xs) (auto split: if_splits)

lemma strip_ends:
  assumes "strip s \<noteq> []"
  shows "\<not> is_space (hd (strip s)) \<and> \<not> is_space (last (strip s))"
proof -
  let ?m = "dropWhile is_space s"
  let ?d = "dropWhile is_space (rev ?m)"
  from assms have d: "?d \<noteq> []" by (simp add: strip_def)
  have "?m = [] \<Longrightarrow> ?d = []" by (simp only: rev.simps dropWhile.simps)
  with d have m: "?m \<noteq> []" by blast
  have "last (strip s) = hd ?d"
    using d by (simp add: strip_def last_rev)
  moreover have "\<not> is_space (hd ?d)"
    using d by (rule hd_dropWhile)
  moreover have "hd (strip s) = last ?d"
    using d by (simp add: strip_def hd_rev)
  moreover have "last ?d = last (rev ?m)"
    using d by (rule last_dropWhile)
  moreover have "last (rev ?m) = hd ?m"
    using m by (simp add: last_rev)
  moreover have "\<not> is_space (hd ?m)"
    using m by (rule hd_dropWhile)
  ultimately show ?thesis by simp
qed

lemma provinces_of_table_tokens: "provinces_of desc = table_tokens desc"
  by (simp add: provinces_of_def table_tokens_def filter_map comp_def)

lemma table_tokens_example: "table_tokens ''Anhui, CN-AH, China'' = [''CN-AH'']"
  by (simp add: table_tokens_def strip_def is_space_def in_PROVINCE_MAP_def PROVINCE_MAP_def)

lemma field_PDict [simp]: "field k (PDict d) = map_of d k"
  by (simp add: field_def)

lemma field_Some_dict: "field k p = Some v \<Longrightarrow> \<exists>d. p = PDict d"
  by (cases p) (simp_all add: field_def)

lemma field_park_dict [simp]:
  "field ''reference'' (park_dict r n ps a t) = Some (PStr r)"
  "field ''name'' (park_dict r n ps a t) = Some (PStr n)"
  "field ''provinces'' (park_dict r n ps a t) = Some (PList (map PStr ps))"
  "field ''activated'' (park_dict r n ps a t) = Some a"
  "field ''activation_time'' (park_dict r n ps a t) = Some t"
  by (simp_all add: park_dict_def)

lemma items_park_dict:
  "dict_get (items (park_dict r n ps a t)) ''activated'' dflt = a"
  "dict_get (items (park_dict r n ps a t)) ''activation_time'' dflt = t"
  by (simp_all add: park_dict_def dict_get_def)

lemma dict_get_items_field:
  "field k e = Some v \<Longrightarrow> dict_get (items e) k dflt = v"
  by (cases e) (simp_all add: field_def dict_get_def)

lemma subscript_missing: "field k p = None \<Longrightarrow> \<exists>e. subscript p k = Inl e"
  by (cases p) (simp_all add: field_def)

section \<open>Park records\<close>

lemma is_parkD:
  assumes "is_park p"
  shows "\<exists>d r n ps a t. p = PDict d \<and> map_of d ''reference'' = Some (PStr r) \<and>
           map_of d ''name'' = Some (PStr n) \<and> map_of d ''provinces'' = Some (PList ps) \<and>
           list_all is_str ps \<and>
           map_of d ''activated'' = Some (PBool a) \<and> map_of d ''activation_time'' = Some t \<and>
           is_str_or_none t"
proof -
  from assms obtain v where "field ''reference'' p = Some v"
    by (auto simp: is_park_def has_field_def split: option.splits)
  then obtain d where d: "p = PDict d" using field_Some_dict by blast
  from assms d obtain r where "map_of d ''reference'' = Some (PStr r)"
    by (auto simp: is_park_def has_field_def split: option.splits elim: is_str.elims)
  moreover from assms d obtain n where "map_of d ''name'' = Some (PStr n)"
    by (auto simp: is_park_def has_field_def split: option.splits elim: is_str.elims)
  moreover from assms d obtain ps where "map_of d ''provinces'' = Some (PList ps)" "list_all is_str ps"
    by (auto simp: is_park_def has_field_def split: option.splits elim: is_str_list.elims)
  moreover from assms d obtain a where "map_of d ''activated'' = Some (PBool a)"
    by (auto simp: is_park_def has_field_def split: option.splits elim: is_bool.elims)
  moreover from assms d obtain t where "map_of d ''activation_time'' = Some t" "is_str_or_none t"
    by (auto simp: is_park_def has_field_def split: option.splits)
  ultimately show ?thesis using d by blast
qed

lemma is_park_reference: "is_park p \<Longrightarrow> \<exists>r. field ''reference'' p = Some (PStr r)"
  by (drule is_parkD) auto

lemma is_park_park_dict:
  "is_bool a \<Longrightarrow> is_str_or_none t \<Longrightarrow> is_park (park_dict r n ps a t)"
  by (simp add: is_park_def has_field_def list_all_iff)

lemma truthy_park: "is_park p \<Longrightarrow> truthy p"
  by (drule is_parkD) auto

lemma subscript_name_park: "is_park p \<Longrightarrow> \<exists>n. subscript p ''name'' = Inr n"
  by (drule is_parkD) auto

lemma activate_record_park_dict:
  "activate_record (park_dict r n ps a t) date = Inr (park_dict r n ps (PBool True) (PStr date))"
  by (simp add: activate_record_def park_dict_def)

lemma activate_record_is_park:
  assumes "is_park p"
  shows "\<exists>p'. activate_record p date = Inr p' \<and> is_park p' \<and>
           field ''activated'' p' = Some (PBool True) \<and>
           field ''activation_time'' p' = Some (PStr date) \<and>
           (\<forall>k. k \<noteq> ''activated'' \<and> k \<noteq> ''activation_time'' \<longrightarrow> field k p' = field k p)"
proof -
  from is_parkD [OF assms] obtain d where d: "p = PDict d" by blast
  let ?p' = "PDict (AList.update ''activation_time'' (PStr date) (AList.update ''activated'' (PBool True) d))"
  have "activate_record p date = Inr ?p'"
    by (simp add: activate_record_def d)
  moreover have "is_park ?p'"
    using assms d by (simp add: is_park_def has_field_def update_conv')
  ultimately show ?thesis
    using d by (auto simp: update_conv')
qed

lemma activate_record_consistent:
  "activate_record p date = Inr p' \<Longrightarrow> activation_consistent p'"
  by (cases p) (auto simp: activate_record_def activation_consistent_def update_conv')

lemma activate_record_reference:
  "activate_record p date = Inr p' \<Longrightarrow> field ''reference'' p' = field ''reference'' p"
  by (cases p) (auto simp: activate_record_def update_conv')

lemma activation_consistent_park_dict:
  "activation_consistent (park_dict r n ps a t) = ((a = PBool True) = (t \<noteq> PNone))"
  by (simp add: activation_consistent_def)

section \<open>Looking a reference up\<close>

lemma find_snoc:
  "List.find P (xs @ [x]) = (case List.find P xs of Some y \<Rightarrow> Some y | None \<Rightarrow> if P x then Some x else None)"
  by (induction xs) simp_all

lemma find_SomeD: "List.find P xs = Some x \<Longrightarrow> x \<in> set xs \<and> P x"
  by (induction xs) (auto split: if_splits)

lemma last_with_reference_Cons:
  "last_with_reference r (p # ps) =
     (case last_with_reference r ps of
        Some q \<Rightarrow> Some q
      | None \<Rightarrow> if field ''reference'' p = Some (PStr r) then Some p else None)"
  by (simp add: last_with_reference_def find_snoc)

lemma last_with_reference_Some:
  "last_with_reference r ps = Some p \<Longrightarrow> p \<in> set ps \<and> field ''reference'' p = Some (PStr r)"
  unfolding last_with_reference_def
  by (drule find_SomeD) simp

lemma last_with_reference_None:
  "last_with_reference r ps = None \<longleftrightarrow> (\<forall>p \<in> set ps. field ''reference'' p \<noteq> Some (PStr r))"
  unfolding last_with_reference_def by (auto simp: find_None_iff)

lemma build_existing_lookup:
  "build_existing ps acc = Inr ex \<Longrightarrow>
   map_of ex (PStr r) =
     (case last_with_reference r ps of
        Some p \<Rightarrow> Some (items p)
      | None \<Rightarrow> map_of acc (PStr r))"
proof (induction ps arbitrary: acc)
  case Nil
  then show ?case by (simp add: last_with_reference_def)
next
  case (Cons p ps)
  from Cons.prems obtain d k where
    p: "p = PDict d" and k: "map_of d ''reference'' = Some k" and
    rest: "build_existing ps (AList.update k d acc) = Inr ex"
    by (auto split: pyval.splits option.splits if_splits)
  show ?case
    using Cons.IH [OF rest] p k
    by (auto simp: last_with_reference_Cons update_conv' split: option.splits)
qed

lemma build_existing_total:
  assumes "\<forall>p \<in> set ps. \<exists>r. field ''reference'' p = Some (PStr r)"
  shows "\<exists>ex. build_existing ps acc = Inr ex"
  using assms
proof (induction ps arbitrary: acc)
  case Nil
  then show ?case by simp
next
  case (Cons p ps)
  then obtain r where r: "field ''reference'' p = Some (PStr r)" by auto
  then obtain d where d: "p = PDict d" using field_Some_dict by blast
  show ?case using Cons r d by simp
qed

lemma parks_build_existing:
  assumes "list_all is_park ps"
  shows "\<exists>ex. build_existing ps acc = Inr ex"
  by (rule build_existing_total) (use assms is_park_reference in \<open>auto simp: list_all_iff\<close>)

lemma carried_Nil: "carried k dflt [] ref = dflt"
  by (simp add: carried_def last_with_reference_def)

lemma carried_park:
  assumes parks: "list_all is_park old"
  shows "case last_with_reference ref old of
           Some e \<Rightarrow> Some (carried ''activated'' (PBool False) old ref) = field ''activated'' e \<and>
                     Some (carried ''activation_time'' PNone old ref) = field ''activation_time'' e
         | None \<Rightarrow> carried ''activated'' (PBool False) old ref = PBool False \<and>
                   carried ''activation_time'' PNone old ref = PNone"
proof (cases "last_with_reference ref old")
  case None
  then show ?thesis by (simp add: carried_def)
next
  case (Some e)
  from last_with_reference_Some [OF Some] parks have "is_park e"
    by (simp add: list_all_iff)
  from is_parkD [OF this] obtain a t where
    "field ''activated'' e = Some a" "field ''activation_time'' e = Some t"
    by auto
  with Some show ?thesis
    by (simp add: carried_def dict_get_items_field)
qed

lemma carried_consistent:
  assumes "list_all activation_consistent old"
  shows "(carried ''activated'' (PBool False) old ref = PBool True) =
         (carried ''activation_time'' PNone old ref \<noteq> PNone)"
proof (cases "last_with_reference ref old")
  case None
  then show ?thesis by (simp add: carried_def)
next
  case (Some e)
  from last_with_reference_Some [OF Some] assms obtain d where
    "e = PDict d" "activation_consistent e"
    using field_Some_dict by (fastforce simp: list_all_iff)
  with Some show ?thesis
    by (auto simp: carried_def dict_get_def activation_consistent_def split: option.splits)
qed

lemma find_park_Some:
  "find_park ref ps = Inr (Some i) \<Longrightarrow>
     i < length ps \<and> field ''reference'' (ps ! i) = Some (PStr ref) \<and>
     (\<forall>j<i. field ''reference'' (ps ! j) \<noteq> Some (PStr ref))"
proof (induction ps arbitrary: i)
  case Nil
  then show ?case by simp
next
  case (Cons p ps)
  from Cons.prems obtain d v where p: "p = PDict d" "map_of d ''reference'' = Some v"
    by (cases p) (auto split: option.splits)
  show ?case
  proof (cases "v = PStr ref")
    case True
    with Cons.prems p show ?thesis by simp
  next
    case False
    with Cons.prems p obtain k where k: "find_park ref ps = Inr (Some k)" "i = Suc k"
      by (auto split: sum.splits option.splits)
    from Cons.IH [OF k(1)] False p k(2) show ?thesis
      by (auto simp: less_Suc_eq_0_disj)
  qed
qed

lemma find_park_None:
  "find_park ref ps = Inr None \<Longrightarrow> \<forall>p \<in> set ps. field ''reference'' p \<noteq> Some (PStr ref)"
proof (induction ps)
  case Nil
  then show ?case by simp
next
  case (Cons p ps)
  from Cons.prems obtain d v where p: "p = PDict d" "map_of d ''reference'' = Some v"
    by (cases p) (auto split: option.splits)
  with Cons show ?case
    by (auto split: if_splits sum.splits option.splits)
qed

lemma find_park_total:
  assumes "\<forall>p \<in> set ps. \<exists>v. field ''reference'' p = Some v"
  shows "\<exists>r. find_park ref ps = Inr r"
  using assms
proof (induction ps)
  case Nil
  then show ?case by simp
next
  case (Cons p ps)
  then obtain v where v: "field ''reference'' p = Some v" by auto
  then obtain d where d: "p = PDict d" using field_Some_dict by blast
  from Cons obtain r where "find_park ref ps = Inr r" by auto
  with v d show ?case by (cases r) auto
qed

lemma find_park_absent:
  assumes "\<forall>p \<in> set ps. \<exists>v. field ''reference'' p = Some v \<and> v \<noteq> PStr ref"
  shows "find_park ref ps = Inr None"
proof -
  from assms have "\<forall>p \<in> set ps. \<exists>v. field ''reference'' p = Some v" by blast
  then obtain r where r: "find_park ref ps = Inr r" using find_park_total by blast
  show ?thesis
  proof (cases r)
    case None
    with r show ?thesis by simp
  next
    case (Some i)
    with r find_park_Some [of ref ps i] assms show ?thesis
      by (metis nth_mem option.inject)
  qed
qed

section \<open>The import loop\<close>

lemma blank_missing_or_empty: "blank (map_of row k) = missing_or_empty row k"
  by (cases "map_of row k") (simp_all add: missing_or_empty_def)

lemma import_rows_eq:
  "import_rows ex rows new_list processed_count =
     (new_list @ map (row_record ex) (filter row_complete rows),
      processed_count + length (filter row_complete rows))"
  by (induction rows arbitrary: new_list processed_count)
     (simp_all add: row_complete_def skipped_def blank_missing_or_empty row_record_def Let_def)

lemma row_complete_reference:
  "row_complete row \<Longrightarrow> map_of row ''reference'' = Some (the (map_of row ''reference''))"
  by (cases "map_of row ''reference''")
     (simp_all add: row_complete_def skipped_def missing_or_empty_def)

lemma field_row_record:
  "field ''provinces'' (row_record ex row) =
     Some (PList (map PStr (table_tokens (the (map_of row ''locationDesc'')))))"
  "field ''reference'' (row_record ex row) = Some (PStr (the (map_of row ''reference'')))"
  "field ''name'' (row_record ex row) = Some (PStr (the (map_of row ''name'')))"
  by (simp_all add: row_record_def new_record_def Let_def provinces_of_table_tokens)

lemma row_record_carried:
  assumes "build_existing old [] = Inr ex"
  shows "row_record ex row =
     park_dict (the (map_of row ''reference'')) (the (map_of row ''name''))
       (provinces_of (the (map_of row ''locationDesc'')))
       (carried ''activated'' (PBool False) old (the (map_of row ''reference'')))
       (carried ''activation_time'' PNone old (the (map_of row ''reference'')))"
  using build_existing_lookup [OF assms, of "the (map_of row ''reference'')"]
  by (simp add: row_record_def new_record_def carried_def dict_get_def split: option.splits)

lemma import_shaped:
  assumes "build_existing old [] = Inr ex"
  shows "map (row_record ex) (filter row_complete rows) =
         shaped (carried ''activated'' (PBool False) old) (carried ''activation_time'' PNone old) rows"
  by (simp add: shaped_def row_record_carried [OF assms])

lemma length_shaped [simp]: "length (shaped A T rows) = length (filter row_complete rows)"
  by (simp add: shaped_def)

lemma shaped_nth:
  "j < length (filter row_complete rows) \<Longrightarrow>
   shaped A T rows ! j =
     park_dict (the (map_of (filter row_complete rows ! j) ''reference''))
       (the (map_of (filter row_complete rows ! j) ''name''))
       (provinces_of (the (map_of (filter row_complete rows ! j) ''locationDesc'')))
       (A (the (map_of (filter row_complete rows ! j) ''reference'')))
       (T (the (map_of (filter row_complete rows ! j) ''reference'')))"
  by (simp add: shaped_def)

lemma references_shaped:
  "map (field ''reference'') (shaped A T rows) = map (\<lambda>r. Some (PStr r)) (imported_references rows)"
  by (simp add: shaped_def imported_references_def comp_def)

lemma build_existing_shaped: "\<exists>ex. build_existing (shaped A T rows) acc = Inr ex"
  by (rule build_existing_total) (auto simp: shaped_def)

lemma carried_shaped:
  assumes "r \<in> set (imported_references rows)"
  shows "carried ''activated'' dflt (shaped A T rows) r = A r"
    and "carried ''activation_time'' dflt' (shaped A T rows) r = T r"
proof -
  from assms obtain row where row: "row \<in> set (filter row_complete rows)" "the (map_of row ''reference'') = r"
    by (auto simp: imported_references_def)
  then have "\<exists>p \<in> set (shaped A T rows). field ''reference'' p = Some (PStr r)"
    by (auto simp: shaped_def intro!: bexI [of _ row])
  then obtain p where p: "last_with_reference r (shaped A T rows) = Some p"
    using last_with_reference_None [of r "shaped A T rows"] by (cases "last_with_reference r (shaped A T rows)") auto
  from last_with_reference_Some [OF p] obtain row' where
    "p = park_dict r (the (map_of row' ''name'')) (provinces_of (the (map_of row' ''locationDesc''))) (A r) (T r)"
    by (auto simp: shaped_def)
  with p show "carried ''activated'' dflt (shaped A T rows) r = A r"
    and "carried ''activation_time'' dflt' (shaped A T rows) r = T r"
    by (simp_all add: carried_def items_park_dict)
qed

lemma shaped_cong:
  assumes "\<forall>r \<in> set (imported_references rows). A r = A' r \<and> T r = T' r"
  shows "shaped A T rows = shaped A' T' rows"
  using assms by (auto simp: shaped_def imported_references_def)

lemma load_parks_from_csv_shaped:
  assumes "build_existing (all_parks w) [] = Inr ex"
  shows "load_parks_from_csv (Some rows) w =
           (Inr (length (filter row_complete rows)),
            w\<lparr>all_parks := shaped (carried ''activated'' (PBool False) (all_parks w))
                              (carried ''activation_time'' PNone (all_parks w)) rows\<rparr>)"
  by (simp add: load_parks_from_csv_def assms import_rows_eq import_shaped [OF assms])

lemma load_parks_from_csv_InrD:
  assumes "load_parks_from_csv (Some rows) w = (Inr n, w1)"
  shows "n = length (filter row_complete rows) \<and>
         w1 = w\<lparr>all_parks := shaped (carried ''activated'' (PBool False) (all_parks w))
                              (carried ''activation_time'' PNone (all_parks w)) rows\<rparr>"
proof (cases "build_existing (all_parks w) []")
  case (Inl e)
  with assms show ?thesis by (simp add: load_parks_from_csv_def)
next
  case (Inr ex)
  from load_parks_from_csv_shaped [OF Inr, of rows] assms show ?thesis by simp
qed

lemma import_fixpoint:
  "load_parks_from_csv (Some rows) (w\<lparr>all_parks := shaped A T rows\<rparr>) =
     (Inr (length (filter row_complete rows)), w\<lparr>all_parks := shaped A T rows\<rparr>)"
proof -
  obtain ex where ex: "build_existing (shaped A T rows) [] = Inr ex"
    using build_existing_shaped by blast
  have "map (row_record ex) (filter row_complete rows) = shaped A T rows"
    unfolding import_shaped [OF ex]
    by (rule shaped_cong) (simp add: carried_shaped)
  then show ?thesis
    by (simp add: load_parks_from_csv_def ex import_rows_eq)
qed

section \<open>Filtering and activation\<close>

lemma all_parks_save_config [simp]: "all_parks (save_config w) = all_parks w"
  by (simp add: save_config_def)

lemma all_parks_save_parks [simp]: "all_parks (save_parks_to_json w) = all_parks w"
  by (simp add: save_parks_to_json_def)

lemma all_parks_filter_parks [simp]: "all_parks (snd (filter_parks w)) = all_parks w"
  by (simp add: filter_parks_def Let_def split: sum.splits option.splits)

lemma filter_by_code_parks:
  assumes "list_all is_park ps"
  shows "filter_by_code c ps = Inr (filter (has_province c) ps)"
  using assms
proof (induction ps)
  case Nil
  then show ?case by simp
next
  case (Cons p ps)
  then have "is_park p" by simp
  from is_parkD [OF this] obtain d xs where
    "p = PDict d" "map_of d ''provinces'' = Some (PList xs)" by blast
  with Cons show ?case by (simp add: has_province_def)
qed

lemma filter_by_code_missing:
  assumes "p \<in> set ps" and "field ''provinces'' p = None"
  shows "\<exists>e. filter_by_code c ps = Inl e"
  using assms
proof (induction ps)
  case Nil
  then show ?case by simp
next
  case (Cons q ps)
  show ?case
  proof (cases "q = p")
    case True
    with subscript_missing [OF Cons.prems(2)] show ?thesis by auto
  next
    case False
    with Cons obtain e where "filter_by_code c ps = Inl e" by auto
    then show ?thesis by (simp split: sum.splits)
  qed
qed

lemma filter_by_code_KeyError:
  assumes "filter_by_code c good = Inr kept" and "map_of d ''provinces'' = None"
  shows "filter_by_code c (good @ PDict d # rest) = Inl KeyError"
  using assms
proof (induction good arbitrary: kept)
  case Nil
  then show ?case by simp
next
  case (Cons q good)
  then show ?case by (auto split: sum.splits)
qed

lemma filterableD:
  assumes "filterable q"
  shows "\<exists>d v b. q = PDict d \<and> map_of d ''provinces'' = Some v \<and> py_contains c v = Inr b"
proof -
  from assms obtain v where v: "field ''provinces'' q = Some v"
    by (cases "field ''provinces'' q") (simp_all add: filterable_def)
  then obtain d where d: "q = PDict d" using field_Some_dict by blast
  from assms v have "\<exists>b. py_contains c v = Inr b"
    by (cases v) (simp_all add: filterable_def)
  with v d show ?thesis by auto
qed

lemma filter_by_code_filterable:
  "list_all filterable good \<Longrightarrow> \<exists>kept. filter_by_code c good = Inr kept"
proof (induction good)
  case Nil
  then show ?case by simp
next
  case (Cons q good)
  then obtain kept where kept: "filter_by_code c good = Inr kept" by auto
  from Cons.prems have "filterable q" by simp
  from filterableD [OF this, of c] obtain d v b where
    "q = PDict d" "map_of d ''provinces'' = Some v" "py_contains c v = Inr b"
    by blast
  with kept show ?case by simp
qed

lemma filterable_filter_by_code:
  "filter_by_code c good = Inr kept \<Longrightarrow> list_all filterable good"
proof (induction good arbitrary: kept)
  case Nil
  then show ?case by simp
next
  case (Cons q good)
  from Cons.prems obtain d v b rest where
    q: "q = PDict d" "map_of d ''provinces'' = Some v" "py_contains c v = Inr b"
    and rest: "filter_by_code c good = Inr rest"
    by (cases q) (auto split: option.splits sum.splits)
  from q have "filterable q"
    by (cases v) (simp_all add: filterable_def)
  with Cons.IH [OF rest] show ?case by simp
qed

lemma filter_by_code_first_failure:
  "filter_by_code c ps = Inl e \<Longrightarrow>
   \<exists>good q rest. ps = good @ q # rest \<and> list_all filterable good \<and> \<not> filterable q \<and>
     ((e = KeyError \<and> (\<exists>d. q = PDict d \<and> map_of d ''provinces'' = None)) \<or>
      e = TypeError)"
proof (induction ps)
  case Nil
  then show ?case by simp
next
  case (Cons q ps)
  show ?case
  proof (cases "filterable q")
    case False
    have "(e = KeyError \<and> (\<exists>d. q = PDict d \<and> map_of d ''provinces'' = None)) \<or> e = TypeError"
    proof (cases q)
      case (PDict d)
      show ?thesis
      proof (cases "map_of d ''provinces''")
        case None
        with Cons.prems PDict show ?thesis by simp
      next
        case (Some v)
        with False PDict have "py_contains c v = Inl TypeError"
          by (cases v) (simp_all add: filterable_def)
        with Cons.prems PDict Some show ?thesis by simp
      qed
    qed (use Cons.prems in simp_all)
    with False show ?thesis
      by (intro exI [of _ "[]"] exI [of _ q] exI [of _ ps]) simp
  next
    case True
    from filterableD [OF this, of c] obtain d v b where
      q: "q = PDict d" "map_of d ''provinces'' = Some v" and b: "py_contains c v = Inr b"
      by blast
    with Cons.prems have "filter_by_code c ps = Inl e"
      by (simp split: sum.splits)
    from Cons.IH [OF this] obtain good q' rest where
      "ps = good @ q' # rest" "list_all filterable good" "\<not> filterable q'"
      "(e = KeyError \<and> (\<exists>d. q' = PDict d \<and> map_of d ''provinces'' = None)) \<or> e = TypeError"
      by blast
    with True show ?thesis
      by (intro exI [of _ "q # good"] exI [of _ q'] exI [of _ rest]) simp
  qed
qed

lemma update_activation_buttons_parks:
  assumes "list_all is_park ps"
  shows "update_activation_buttons ps = Inr ()"
  using assms
proof (induction ps)
  case Nil
  then show ?case by simp
next
  case (Cons p ps)
  then have "is_park p" by simp
  from is_parkD [OF this] obtain d r where
    "p = PDict d" "map_of d ''reference'' = Some (PStr r)" by blast
  with Cons show ?case by simp
qed

lemma list_all_filter: "list_all P xs \<Longrightarrow> list_all P (filter Q xs)"
  by (simp add: list_all_iff)

lemma prompt_activation_all_parks:
  "all_parks (snd (prompt_activation ref dlg w)) = all_parks w \<or>
   (\<exists>i date p'. dlg = Some date \<and> find_park ref (all_parks w) = Inr (Some i) \<and>
      activate_record (all_parks w ! i) date = Inr p' \<and>
      all_parks (snd (prompt_activation ref dlg w)) = (all_parks w)[i := p'])"
  by (auto simp: prompt_activation_def Let_def split: sum.splits option.splits)

lemma prompt_activation_references:
  "map (field ''reference'') (all_parks (snd (prompt_activation ref dlg w))) =
   map (field ''reference'') (all_parks w)"
  using prompt_activation_all_parks [of ref dlg w]
proof
  assume "all_parks (snd (prompt_activation ref dlg w)) = all_parks w"
  then show ?thesis by simp
next
  assume "\<exists>i date p'. dlg = Some date \<and> find_park ref (all_parks w) = Inr (Some i) \<and>
      activate_record (all_parks w ! i) date = Inr p' \<and>
      all_parks (snd (prompt_activation ref dlg w)) = (all_parks w)[i := p']"
  then obtain i date p' where
    i: "find_park ref (all_parks w) = Inr (Some i)"
    and p': "activate_record (all_parks w ! i) date = Inr p'"
    and new: "all_parks (snd (prompt_activation ref dlg w)) = (all_parks w)[i := p']"
    by blast
  from find_park_Some [OF i] have "i < length (all_parks w)" by simp
  then have "(map (field ''reference'') (all_parks w))[i := field ''reference'' (all_parks w ! i)] =
        map (field ''reference'') (all_parks w)"
    by (simp add: list_update_same_conv)
  then show ?thesis
    unfolding new by (simp add: map_update activate_record_reference [OF p'])
qed

lemma count_list_once:
  "count_list xs x \<le> 1 \<Longrightarrow> i < length xs \<Longrightarrow> j < length xs \<Longrightarrow>
   xs ! i = x \<Longrightarrow> xs ! j = x \<Longrightarrow> i = j"
proof (induction xs arbitrary: i j)
  case Nil
  then show ?case by simp
next
  case (Cons y ys)
  have tail: "count_list ys x = 0" if "y = x"
    using Cons.prems(1) that by simp
  show ?case
  proof (cases i)
    case 0
    show ?thesis
    proof (cases j)
      case 0
      with \<open>i = 0\<close> show ?thesis by simp
    next
      case (Suc j')
      with Cons.prems 0 have "y = x" "x \<in> set ys" by auto
      with tail show ?thesis by (simp add: count_list_0_iff)
    qed
  next
    case (Suc i')
    show ?thesis
    proof (cases j)
      case 0
      with Cons.prems Suc have "y = x" "x \<in> set ys" by auto
      with tail show ?thesis by (simp add: count_list_0_iff)
    next
      case (Suc j')
      have "count_list ys x \<le> 1"
        using Cons.prems(1) by (simp split: if_splits)
      from Cons.IH [OF this, of i' j'] Cons.prems \<open>i = Suc i'\<close> Suc show ?thesis
        by simp
    qed
  qed
qed

lemma shaped_activate:
  assumes once: "count_list (imported_references rows) ref \<le> 1"
    and found: "find_park ref (shaped A T rows) = Inr (Some i)"
    and act: "activate_record (shaped A T rows ! i) date = Inr p'"
  shows "(shaped A T rows)[i := p'] = shaped (A(ref := PBool True)) (T(ref := PStr date)) rows"
proof -
  let ?rows = "filter row_complete rows"
  let ?rf = "\<lambda>row. the (map_of row ''reference'')"
  from find_park_Some [OF found] have i: "i < length ?rows"
    and fi: "field ''reference'' (shaped A T rows ! i) = Some (PStr ref)"
    by simp_all
  from fi i have ri: "?rf (?rows ! i) = ref"
    by (simp add: shaped_nth)
  have other: "?rf (?rows ! j) \<noteq> ref" if "j < length ?rows" "j \<noteq> i" for j
  proof
    assume "?rf (?rows ! j) = ref"
    then have "imported_references rows ! j = ref" "imported_references rows ! i = ref"
      using that i ri by (simp_all add: imported_references_def)
    moreover have "j < length (imported_references rows)" "i < length (imported_references rows)"
      using that i by (simp_all add: imported_references_def)
    ultimately have "j = i"
      using count_list_once [OF once] by blast
    with that show False by simp
  qed
  from act i ri have p': "p' = park_dict ref (the (map_of (?rows ! i) ''name''))
       (provinces_of (the (map_of (?rows ! i) ''locationDesc''))) (PBool True) (PStr date)"
    by (simp add: shaped_nth activate_record_park_dict)
  show ?thesis
  proof (rule nth_equalityI)
    show "length ((shaped A T rows)[i := p']) = length (shaped (A(ref := PBool True)) (T(ref := PStr date)) rows)"
      by simp
  next
    fix j assume "j < length ((shaped A T rows)[i := p'])"
    then have j: "j < length ?rows" by simp
    show "(shaped A T rows)[i := p'] ! j = shaped (A(ref := PBool True)) (T(ref := PStr date)) rows ! j"
    proof (cases "j = i")
      case True
      with i ri p' show ?thesis by (simp add: shaped_nth)
    next
      case False
      with j other [OF j False] show ?thesis by (simp add: shaped_nth)
    qed
  qed
qed

lemma prompt_activation_shaped:
  assumes once: "dlg = None \<or> count_list (imported_references rows) ref \<le> 1"
    and sh: "all_parks w = shaped A T rows"
  shows "\<exists>A' T'. all_parks (snd (prompt_activation ref dlg w)) = shaped A' T' rows"
  using prompt_activation_all_parks [of ref dlg w]
proof
  assume "all_parks (snd (prompt_activation ref dlg w)) = all_parks w"
  with sh show ?thesis by auto
next
  assume "\<exists>i date p'. dlg = Some date \<and> find_park ref (all_parks w) = Inr (Some i) \<and>
      activate_record (all_parks w ! i) date = Inr p' \<and>
      all_parks (snd (prompt_activation ref dlg w)) = (all_parks w)[i := p']"
  then obtain i date p' where
    "dlg = Some date"
    "find_park ref (shaped A T rows) = Inr (Some i)"
    "activate_record (shaped A T rows ! i) date = Inr p'"
    "all_parks (snd (prompt_activation ref dlg w)) = (shaped A T rows)[i := p']"
    using sh by auto
  moreover from this(1) once have "count_list (imported_references rows) ref \<le> 1"
    by simp
  ultimately show ?thesis
    using shaped_activate [of rows ref A T i date p'] by metis
qed

lemma record_activations_shaped:
  "activated_once rows acts \<Longrightarrow> all_parks w = shaped A T rows \<Longrightarrow>
   \<exists>A' T'. all_parks (record_activations acts w) = shaped A' T' rows"
proof (induction acts arbitrary: w A T)
  case Nil
  then show ?case by auto
next
  case (Cons a acts)
  from Cons.prems(1) have
    once: "snd a = None \<or> count_list (imported_references rows) (fst a) \<le> 1"
    and rest: "activated_once rows acts"
    by (simp_all add: activated_once_def)
  from prompt_activation_shaped [OF once Cons.prems(2)]
  obtain A' T' where "all_parks (snd (prompt_activation (fst a) (snd a) w)) = shaped A' T' rows"
    by blast
  from Cons.IH [OF rest this] show ?case by simp
qed

lemma distinct_count_list: "distinct xs \<Longrightarrow> count_list xs x \<le> 1"
  by (induction xs) (auto simp: count_list_0_iff)

lemma distinct_activated_once:
  assumes "distinct (imported_references rows)"
  shows "activated_once rows acts"
  unfolding activated_once_def list_all_iff
  using distinct_count_list [OF assms] by blast

section \<open>Park records stay Park records\<close>

text \<open>
  A catalog of Park records is one again after an import and after an activation, and
  the empty catalog is one: the operations never leave the data model.
\<close>

lemma carried_types:
  assumes parks: "list_all is_park old"
  shows "is_bool (carried ''activated'' (PBool False) old ref) \<and>
         is_str_or_none (carried ''activation_time'' PNone old ref)"
proof (cases "last_with_reference ref old")
  case None
  then show ?thesis by (simp add: carried_def)
next
  case (Some e)
  from last_with_reference_Some [OF Some] parks have "is_park e"
    by (simp add: list_all_iff)
  from is_parkD [OF this] obtain d a t where
    "e = PDict d" "map_of d ''activated'' = Some (PBool a)"
    "map_of d ''activation_time'' = Some t" "is_str_or_none t"
    by blast
  with Some show ?thesis
    by (simp add: carried_def dict_get_def)
qed

lemma load_parks_from_csv_parks:
  assumes parks: "list_all is_park (all_parks w)"
  shows "list_all is_park (all_parks (snd (load_parks_from_csv csv w)))"
proof (cases csv)
  case None
  with parks show ?thesis
    by (simp add: load_parks_from_csv_def split: sum.splits)
next
  case (Some rows)
  obtain ex where ex: "build_existing (all_parks w) [] = Inr ex"
    using parks_build_existing [OF parks] by blast
  show ?thesis
    unfolding Some load_parks_from_csv_shaped [OF ex]
    by (simp add: shaped_def list_all_iff is_park_park_dict carried_types [OF parks])
qed

lemma prompt_activation_parks:
  assumes parks: "list_all is_park (all_parks w)"
  shows "list_all is_park (all_parks (snd (prompt_activation ref dlg w)))"
  using prompt_activation_all_parks [of ref dlg w]
proof
  assume "all_parks (snd (prompt_activation ref dlg w)) = all_parks w"
  with parks show ?thesis by simp
next
  assume "\<exists>i date p'. dlg = Some date \<and> find_park ref (all_parks w) = Inr (Some i) \<and>
      activate_record (all_parks w ! i) date = Inr p' \<and>
      all_parks (snd (prompt_activation ref dlg w)) = (all_parks w)[i := p']"
  then obtain i date p' where
    i: "find_park ref (all_parks w) = Inr (Some i)"
    and p': "activate_record (all_parks w ! i) date = Inr p'"
    and new: "all_parks (snd (prompt_activation ref dlg w)) = (all_parks w)[i := p']"
    by blast
  from find_park_Some [OF i] parks have "is_park (all_parks w ! i)"
    by (simp add: list_all_length)
  from activate_record_is_park [OF this, of date] p' have "is_park p'"
    by auto
  moreover have "set ((all_parks w)[i := p']) \<subseteq> insert p' (set (all_parks w))"
    by (rule set_update_subset_insert)
  ultimately show ?thesis
    using parks unfolding new by (auto simp: list_all_iff)
qed

section \<open>The examples of the specification\<close>

lemma example_complete: "row_complete example_row"
  by (simp add: row_complete_def skipped_def missing_or_empty_def example_row_def)

lemma example_fields:
  "map_of example_row ''reference'' = Some ''CN-0012''"
  "map_of example_row ''name'' = Some ''Test Park''"
  "map_of example_row ''locationDesc'' = Some ''Anhui, CN-AH, China''"
  by (simp_all add: example_row_def)

lemma example_provinces: "provinces_of ''Anhui, CN-AH, China'' = [''CN-AH'']"
  by (simp add: provinces_of_table_tokens table_tokens_example)

lemma shaped_example:
  "shaped A T [example_row] =
     [park_dict ''CN-0012'' ''Test Park'' [''CN-AH''] (A ''CN-0012'') (T ''CN-0012'')]"
  by (simp add: shaped_def example_complete example_fields example_provinces)

lemma shaped_example_twice:
  "shaped A T [example_row, example_row] =
     [park_dict ''CN-0012'' ''Test Park'' [''CN-AH''] (A ''CN-0012'') (T ''CN-0012''),
      park_dict ''CN-0012'' ''Test Park'' [''CN-AH''] (A ''CN-0012'') (T ''CN-0012'')]"
  by (simp add: shaped_def example_complete example_fields example_provinces)

lemma load_example_initial:
  "load_parks_from_csv (Some [example_row]) initial_app =
     (Inr 1, initial_app\<lparr>all_parks :=
        [park_dict ''CN-0012'' ''Test Park'' [''CN-AH''] (PBool False) PNone]\<rparr>)"
proof -
  have "build_existing (all_parks initial_app) [] = Inr []"
    by (simp add: initial_app_def)
  from load_parks_from_csv_shaped [OF this, of "[example_row]"] show ?thesis
    by (simp add: shaped_example example_complete initial_app_def carried_Nil)
qed

lemma load_example_twice_initial:
  "load_parks_from_csv (Some [example_row, example_row]) initial_app =
     (Inr 2, initial_app\<lparr>all_parks :=
        [park_dict ''CN-0012'' ''Test Park'' [''CN-AH''] (PBool False) PNone,
         park_dict ''CN-0012'' ''Test Park'' [''CN-AH''] (PBool False) PNone]\<rparr>)"
proof -
  have "build_existing (all_parks initial_app) [] = Inr []"
    by (simp add: initial_app_def)
  from load_parks_from_csv_shaped [OF this, of "[example_row, example_row]"] show ?thesis
    by (simp add: shaped_example_twice example_complete initial_app_def carried_Nil)
qed

lemma second_complete: "row_complete second_row"
  by (simp add: row_complete_def skipped_def missing_or_empty_def second_row_def)

lemma second_fields:
  "map_of second_row ''reference'' = Some ''CN-0002''"
  "map_of second_row ''name'' = Some ''Second Park''"
  "map_of second_row ''locationDesc'' = Some ''CN-BJ''"
  by (simp_all add: second_row_def)

lemma second_provinces: "provinces_of ''CN-BJ'' = [''CN-BJ'']"
  by (simp add: provinces_of_def strip_def is_space_def in_PROVINCE_MAP_def PROVINCE_MAP_def)

lemma shaped_example_three:
  "shaped A T [example_row, example_row, second_row] =
     [park_dict ''CN-0012'' ''Test Park'' [''CN-AH''] (A ''CN-0012'') (T ''CN-0012''),
      park_dict ''CN-0012'' ''Test Park'' [''CN-AH''] (A ''CN-0012'') (T ''CN-0012''),
      park_dict ''CN-0002'' ''Second Park'' [''CN-BJ''] (A ''CN-0002'') (T ''CN-0002'')]"
  by (simp add: shaped_def example_complete example_fields example_provinces
        second_complete second_fields second_provinces)

lemma load_example_three_initial:
  "load_parks_from_csv (Some [example_row, example_row, second_row]) initial_app =
     (Inr 3, initial_app\<lparr>all_parks :=
        [park_dict ''CN-0012'' ''Test Park'' [''CN-AH''] (PBool False) PNone,
         park_dict ''CN-0012'' ''Test Park'' [''CN-AH''] (PBool False) PNone,
         park_dict ''CN-0002'' ''Second Park'' [''CN-BJ''] (PBool False) PNone]\<rparr>)"
proof -
  have "build_existing (all_parks initial_app) [] = Inr []"
    by (simp add: initial_app_def)
  from load_parks_from_csv_shaped [OF this, of "[example_row, example_row, second_row]"]
  show ?thesis
    by (simp add: shaped_example_three example_complete second_complete initial_app_def
          carried_Nil)
qed

lemma activate_third:
  "all_parks (snd (prompt_activation ''CN-0002'' (Some date)
      (w\<lparr>all_parks := [park_dict ''CN-0012'' n1 ps1 a1 t1, park_dict ''CN-0012'' n2 ps2 a2 t2,
                       park_dict ''CN-0002'' n3 ps3 a3 t3]\<rparr>))) =
     [park_dict ''CN-0012'' n1 ps1 a1 t1, park_dict ''CN-0012'' n2 ps2 a2 t2,
      park_dict ''CN-0002'' n3 ps3 (PBool True) (PStr date)]"
  by (simp add: prompt_activation_def Let_def park_dict_def activate_record_def split: sum.splits)

lemma activate_example:
  "all_parks (snd (prompt_activation ''CN-0012'' (Some date)
      (w\<lparr>all_parks := park_dict ''CN-0012'' n ps a t # rest\<rparr>))) =
     park_dict ''CN-0012'' n ps (PBool True) (PStr date) # rest"
  by (simp add: prompt_activation_def Let_def park_dict_def activate_record_def split: sum.splits)

lemma build_existing_example_pair:
  "build_existing
     [park_dict ''CN-0012'' n ps a t, park_dict ''CN-0012'' n' ps' a' t'] [] =
   Inr [(PStr ''CN-0012'', items (park_dict ''CN-0012'' n' ps' a' t'))]"
  by (simp add: park_dict_def)

section \<open>Activation of a park\<close>

text \<open>
  C2 (activation). On a catalog of Park records: when some record has the reference,
  \<^verbatim>\<open>prompt_activation\<close> with an accepted dialog changes the first such record, and
  only it, so that \<open>activated\<close> is true and \<open>activation_time\<close> is the given date, every
  other field of it staying as it was; when no record has the reference, the operation
  returns after the "not found" warning with the catalog, the files on disk and the
  list of written files as they were.
\<close>

theorem prompt_activation_catalog:
  assumes parks: "list_all is_park (all_parks w)"
  shows
    "((\<exists>p \<in> set (all_parks w). field ''reference'' p = Some (PStr ref)) \<longrightarrow>
        (\<exists>i < length (all_parks w). \<exists>p'.
           field ''reference'' (all_parks w ! i) = Some (PStr ref) \<and>
           (\<forall>j < i. field ''reference'' (all_parks w ! j) \<noteq> Some (PStr ref)) \<and>
           all_parks (snd (prompt_activation ref (Some date) w)) = (all_parks w)[i := p'] \<and>
           field ''activated'' p' = Some (PBool True) \<and>
           field ''activation_time'' p' = Some (PStr date) \<and>
           (\<forall>k. k \<noteq> ''activated'' \<and> k \<noteq> ''activation_time'' \<longrightarrow>
                field k p' = field k (all_parks w ! i)))) \<and>
     ((\<forall>p \<in> set (all_parks w). field ''reference'' p \<noteq> Some (PStr ref)) \<longrightarrow>
        prompt_activation ref dlg w =
          (Inr (), w\<lparr>shown := NotFoundWarning ref # shown w\<rparr>))"
proof (intro conjI impI)
  assume ex: "\<exists>p \<in> set (all_parks w). field ''reference'' p = Some (PStr ref)"
  have "\<forall>p \<in> set (all_parks w). \<exists>v. field ''reference'' p = Some v"
    using parks is_park_reference by (fastforce simp: list_all_iff)
  then obtain r where r: "find_park ref (all_parks w) = Inr r"
    using find_park_total by blast
  from ex r find_park_None [of ref "all_parks w"] obtain i where
    i: "find_park ref (all_parks w) = Inr (Some i)"
    by (cases r) auto
  note fi = find_park_Some [OF i]
  let ?park = "all_parks w ! i"
  from fi parks have park: "is_park ?park"
    by (simp add: list_all_length)
  from activate_record_is_park [OF park, of date] obtain p' where
    p': "activate_record ?park date = Inr p'"
        "field ''activated'' p' = Some (PBool True)"
        "field ''activation_time'' p' = Some (PStr date)"
        "\<forall>k. k \<noteq> ''activated'' \<and> k \<noteq> ''activation_time'' \<longrightarrow> field k p' = field k ?park"
    by blast
  from subscript_name_park [OF park] obtain n where n: "subscript ?park ''name'' = Inr n"
    by blast
  have "all_parks (snd (prompt_activation ref (Some date) w)) = (all_parks w)[i := p']"
    using i n p'(1) truthy_park [OF park]
    by (simp add: prompt_activation_def Let_def split: sum.splits)
  with fi p' show "\<exists>i < length (all_parks w). \<exists>p'.
           field ''reference'' (all_parks w ! i) = Some (PStr ref) \<and>
           (\<forall>j < i. field ''reference'' (all_parks w ! j) \<noteq> Some (PStr ref)) \<and>
           all_parks (snd (prompt_activation ref (Some date) w)) = (all_parks w)[i := p'] \<and>
           field ''activated'' p' = Some (PBool True) \<and>
           field ''activation_time'' p' = Some (PStr date) \<and>
           (\<forall>k. k \<noteq> ''activated'' \<and> k \<noteq> ''activation_time'' \<longrightarrow>
                field k p' = field k (all_parks w ! i))"
    by blast
next
  assume no: "\<forall>p \<in> set (all_parks w). field ''reference'' p \<noteq> Some (PStr ref)"
  have "\<forall>p \<in> set (all_parks w). \<exists>v. field ''reference'' p = Some v \<and> v \<noteq> PStr ref"
  proof
    fix p assume p: "p \<in> set (all_parks w)"
    with parks have "is_park p" by (simp add: list_all_iff)
    with is_park_reference obtain r where "field ''reference'' p = Some (PStr r)" by blast
    with no p show "\<exists>v. field ''reference'' p = Some v \<and> v \<noteq> PStr ref" by auto
  qed
  then have "find_park ref (all_parks w) = Inr None"
    by (rule find_park_absent)
  then show "prompt_activation ref dlg w =
          (Inr (), w\<lparr>shown := NotFoundWarning ref # shown w\<rparr>)"
    by (simp add: prompt_activation_def)
qed

text \<open>
  The activation example of the specification: \<^verbatim>\<open>CN-0012\<close> is activated with the
  date \<^verbatim>\<open>2024-05-01\<close>, and \<^verbatim>\<open>CN-9999\<close> is not found.
\<close>

theorem prompt_activation_catalog_witness:
  "list_all is_park [park_dict ''CN-0012'' ''Test Park'' [''CN-AH''] (PBool False) PNone] \<and>
   map (field ''activated'') (all_parks (snd (prompt_activation ''CN-0012'' (Some ''2024-05-01'')
      (initial_app\<lparr>all_parks := [park_dict ''CN-0012'' ''Test Park'' [''CN-AH''] (PBool False) PNone]\<rparr>)))) =
     [Some (PBool True)] \<and>
   map (field ''activation_time'') (all_parks (snd (prompt_activation ''CN-0012'' (Some ''2024-05-01'')
      (initial_app\<lparr>all_parks := [park_dict ''CN-0012'' ''Test Park'' [''CN-AH''] (PBool False) PNone]\<rparr>)))) =
     [Some (PStr ''2024-05-01'')] \<and>
   all_parks (snd (prompt_activation ''CN-0012'' (Some ''2024-05-01'')
      (initial_app\<lparr>all_parks := [park_dict ''CN-0012'' ''Test Park'' [''CN-AH''] (PBool False) PNone]\<rparr>))) =
     [park_dict ''CN-0012'' ''Test Park'' [''CN-AH''] (PBool True) (PStr ''2024-05-01'')] \<and>
   prompt_activation ''CN-9999'' (Some ''2024-05-01'')
      (initial_app\<lparr>all_parks := [park_dict ''CN-0012'' ''Test Park'' [''CN-AH''] (PBool False) PNone]\<rparr>) =
     (Inr (), initial_app\<lparr>all_parks := [park_dict ''CN-0012'' ''Test Park'' [''CN-AH''] (PBool False) PNone],
                 shown := [NotFoundWarning ''CN-9999'']\<rparr>)"
proof -
  let ?p = "park_dict ''CN-0012'' ''Test Park'' [''CN-AH''] (PBool False) PNone"
  let ?w = "initial_app\<lparr>all_parks := [?p]\<rparr>"
  let ?new = "all_parks (snd (prompt_activation ''CN-0012'' (Some ''2024-05-01'') ?w))"
  have h: "list_all is_park (all_parks ?w)"
    by (simp add: is_park_park_dict)
  have found: "\<exists>p \<in> set (all_parks ?w). field ''reference'' p = Some (PStr ''CN-0012'')"
    by simp
  have nf: "\<forall>p \<in> set (all_parks ?w). field ''reference'' p \<noteq> Some (PStr ''CN-9999'')"
    by simp
  have "\<exists>i p'. i < length (all_parks ?w) \<and> ?new = (all_parks ?w)[i := p'] \<and>
    field ''activated'' p' = Some (PBool True) \<and>
    field ''activation_time'' p' = Some (PStr ''2024-05-01'')"
    using mp [OF conjunct1 [OF prompt_activation_catalog [OF h, of "''CN-0012''" "''2024-05-01''"]] found]
    by (elim exE conjE) (intro exI conjI, assumption+)
  then obtain i p' where i: "i < length (all_parks ?w)" and new: "?new = (all_parks ?w)[i := p']"
    and a': "field ''activated'' p' = Some (PBool True)"
    and t': "field ''activation_time'' p' = Some (PStr ''2024-05-01'')"
    by (elim exE conjE)
  from i have i0: "i = 0" by simp
  have a: "map (field ''activated'') ?new = [Some (PBool True)]"
    unfolding new i0 by (simp add: a')
  have t: "map (field ''activation_time'') ?new = [Some (PStr ''2024-05-01'')]"
    unfolding new i0 by (simp add: t')
  have n: "prompt_activation ''CN-9999'' (Some ''2024-05-01'') ?w =
          (Inr (), ?w\<lparr>shown := NotFoundWarning ''CN-9999'' # shown ?w\<rparr>)"
    using mp [OF conjunct2 [OF prompt_activation_catalog [OF h, of "''CN-9999''" _ "Some ''2024-05-01''"]] nf] .
  have s: "?w\<lparr>shown := NotFoundWarning ''CN-9999'' # shown ?w\<rparr> =
           initial_app\<lparr>all_parks := [?p], shown := [NotFoundWarning ''CN-9999'']\<rparr>"
    by (simp add: initial_app_def)
  have h': "list_all is_park [?p]"
    using h by simp
  have e: "?new =
      [park_dict ''CN-0012'' ''Test Park'' [''CN-AH''] (PBool True) (PStr ''2024-05-01'')]"
    by (simp add: activate_example)
  from h' a t e n [unfolded s] show ?thesis
    by (intro conjI)
qed

section \<open>Import of a CSV file\<close>

text \<open>
  C3 (rows). Once the lookup of the existing catalog is built, the import skips every
  row whose \<open>reference\<close>, \<open>name\<close> or \<open>locationDesc\<close> is missing or empty, makes one
  record of each other row, in order, and returns the number of these records; the
  record of a row has the row's reference and name, and as provinces the tokens of the
  location description between commas, trimmed and restricted to the keys of the
  province table, in their order and with their repetitions.
\<close>

theorem load_parks_from_csv_rows:
  assumes "build_existing (all_parks w) [] = Inr ex"
  shows "load_parks_from_csv (Some rows) w =
           (Inr (length (filter row_complete rows)),
            w\<lparr>all_parks := map (row_record ex) (filter row_complete rows)\<rparr>) \<and>
         (\<forall>row. field ''reference'' (row_record ex row) = Some (PStr (the (map_of row ''reference''))) \<and>
                field ''name'' (row_record ex row) = Some (PStr (the (map_of row ''name''))) \<and>
                field ''provinces'' (row_record ex row) =
                  Some (PList (map PStr (table_tokens (the (map_of row ''locationDesc''))))))"
  using assms
  by (simp add: load_parks_from_csv_def import_rows_eq field_row_record)

text \<open>
  The import example of the specification among four more rows: one with an empty
  name, one without reference and one with an empty location description, which are
  skipped, and one that names \<^verbatim>\<open>CN-BJ\<close> twice, with blanks around the tokens.
\<close>

theorem load_parks_from_csv_rows_witness:
  "build_existing (all_parks initial_app) [] = Inr [] \<and>
   load_parks_from_csv
     (Some [example_row,
            [(''reference'', ''CN-0013''), (''name'', []), (''locationDesc'', ''CN-BJ'')],
            [(''name'', ''Nameless''), (''locationDesc'', ''CN-BJ'')],
            [(''reference'', ''CN-0014''), (''name'', ''Twice''),
             (''locationDesc'', ''CN-BJ , x ,CN-AH,CN-BJ'')],
            [(''reference'', ''CN-0015''), (''name'', ''No place''), (''locationDesc'', [])]])
     initial_app =
     (Inr 2,
      initial_app\<lparr>all_parks :=
        [park_dict ''CN-0012'' ''Test Park'' [''CN-AH''] (PBool False) PNone,
         park_dict ''CN-0014'' ''Twice'' [''CN-BJ'', ''CN-AH'', ''CN-BJ''] (PBool False) PNone]\<rparr>)"
proof -
  let ?empty_name = "[(''reference'', ''CN-0013''), (''name'', []), (''locationDesc'', ''CN-BJ'')]"
  let ?no_reference = "[(''name'', ''Nameless''), (''locationDesc'', ''CN-BJ'')]"
  let ?twice = "[(''reference'', ''CN-0014''), (''name'', ''Twice''),
             (''locationDesc'', ''CN-BJ , x ,CN-AH,CN-BJ'')]"
  let ?empty_desc = "[(''reference'', ''CN-0015''), (''name'', ''No place''), (''locationDesc'', [])]"
  let ?rows = "[example_row, ?empty_name, ?no_reference, ?twice, ?empty_desc]"
  have h: "build_existing (all_parks initial_app) [] = Inr []"
    by (simp add: initial_app_def)
  have s1: "skipped ?empty_name" and s2: "skipped ?no_reference" and s3: "skipped ?empty_desc"
    by (simp_all add: skipped_def missing_or_empty_def)
  have k: "\<not> skipped ?twice"
    by (simp add: skipped_def missing_or_empty_def)
  have c: "filter row_complete ?rows = [example_row, ?twice]"
    using s1 s2 s3 k example_complete by (simp add: row_complete_def)
  have t: "table_tokens ''CN-BJ , x ,CN-AH,CN-BJ'' = [''CN-BJ'', ''CN-AH'', ''CN-BJ'']"
    by (simp add: table_tokens_def strip_def is_space_def in_PROVINCE_MAP_def PROVINCE_MAP_def)
  have r1: "row_record [] example_row =
             park_dict ''CN-0012'' ''Test Park'' [''CN-AH''] (PBool False) PNone"
    by (simp add: row_record_def new_record_def example_row_def provinces_of_table_tokens
          table_tokens_example dict_get_def)
  have r2: "row_record [] ?twice =
             park_dict ''CN-0014'' ''Twice'' [''CN-BJ'', ''CN-AH'', ''CN-BJ''] (PBool False) PNone"
    by (simp add: row_record_def new_record_def provinces_of_table_tokens t dict_get_def)
  have "load_parks_from_csv (Some ?rows) initial_app =
     (Inr (length [example_row, ?twice]),
      initial_app\<lparr>all_parks := map (row_record []) [example_row, ?twice]\<rparr>)"
    using load_parks_from_csv_rows [OF h, of ?rows]
    unfolding c by blast
  then show ?thesis
    using h by (simp add: r1 r2)
qed

text \<open>
  C4 (merge). On a catalog of Park records the import succeeds; every record it
  produces has the reference of a row of the CSV, and its \<open>activated\<close> and
  \<open>activation_time\<close> are those of the existing record with that reference (the last
  one, should several have it) and \<^verbatim>\<open>False\<close> and \<^verbatim>\<open>None\<close> when there is none; a
  reference that no row of the CSV has is the reference of no record of the result.
\<close>

theorem load_parks_from_csv_merge:
  assumes parks: "list_all is_park (all_parks w)"
  shows
    "fst (load_parks_from_csv (Some rows) w) = Inr (length (filter row_complete rows)) \<and>
     (\<forall>r \<in> set (all_parks (snd (load_parks_from_csv (Some rows) w))).
        \<exists>row \<in> set rows. \<exists>ref.
          map_of row ''reference'' = Some ref \<and>
          field ''reference'' r = Some (PStr ref) \<and>
          (case last_with_reference ref (all_parks w) of
             Some e \<Rightarrow> field ''activated'' r = field ''activated'' e \<and>
                       field ''activation_time'' r = field ''activation_time'' e
           | None \<Rightarrow> field ''activated'' r = Some (PBool False) \<and>
                     field ''activation_time'' r = Some PNone)) \<and>
     (\<forall>ref. (\<forall>row \<in> set rows. map_of row ''reference'' \<noteq> Some ref) \<longrightarrow>
        (\<forall>r \<in> set (all_parks (snd (load_parks_from_csv (Some rows) w))).
           field ''reference'' r \<noteq> Some (PStr ref)))"
proof -
  let ?new = "all_parks (snd (load_parks_from_csv (Some rows) w))"
  obtain ex where ex: "build_existing (all_parks w) [] = Inr ex"
    using parks_build_existing [OF parks] by blast
  have new: "?new = shaped (carried ''activated'' (PBool False) (all_parks w))
                      (carried ''activation_time'' PNone (all_parks w)) rows"
    by (simp add: load_parks_from_csv_def ex import_rows_eq import_shaped [OF ex])
  have count: "fst (load_parks_from_csv (Some rows) w) = Inr (length (filter row_complete rows))"
    by (simp add: load_parks_from_csv_def ex import_rows_eq)
  have each: "\<exists>row \<in> set rows. \<exists>ref.
          map_of row ''reference'' = Some ref \<and>
          field ''reference'' r = Some (PStr ref) \<and>
          (case last_with_reference ref (all_parks w) of
             Some e \<Rightarrow> field ''activated'' r = field ''activated'' e \<and>
                       field ''activation_time'' r = field ''activation_time'' e
           | None \<Rightarrow> field ''activated'' r = Some (PBool False) \<and>
                     field ''activation_time'' r = Some PNone)" if "r \<in> set ?new" for r
  proof -
    from that new obtain row where row: "row \<in> set rows" "row_complete row"
      and r: "r = park_dict (the (map_of row ''reference'')) (the (map_of row ''name''))
                  (provinces_of (the (map_of row ''locationDesc'')))
                  (carried ''activated'' (PBool False) (all_parks w) (the (map_of row ''reference'')))
                  (carried ''activation_time'' PNone (all_parks w) (the (map_of row ''reference'')))"
      by (auto simp: shaped_def)
    let ?ref = "the (map_of row ''reference'')"
    have "case last_with_reference ?ref (all_parks w) of
             Some e \<Rightarrow> field ''activated'' r = field ''activated'' e \<and>
                       field ''activation_time'' r = field ''activation_time'' e
           | None \<Rightarrow> field ''activated'' r = Some (PBool False) \<and>
                     field ''activation_time'' r = Some PNone"
      using carried_park [OF parks, of ?ref] r
      by (simp split: option.splits)
    with row row_complete_reference [OF row(2)] r show ?thesis
      by (intro bexI [of _ row] exI [of _ ?ref]) simp_all
  qed
  have absent: "field ''reference'' r \<noteq> Some (PStr ref)"
    if "\<forall>row \<in> set rows. map_of row ''reference'' \<noteq> Some ref" "r \<in> set ?new" for ref r
    using each [OF that(2)] that(1) by auto
  from count each absent show ?thesis by blast
qed

text \<open>
  An activated park is imported again under a new name and keeps its activation; a park
  that the CSV does not list is gone.
\<close>

theorem load_parks_from_csv_merge_witness:
  "list_all is_park
     [park_dict ''CN-0012'' ''Old name'' [] (PBool True) (PStr ''2024-05-01''),
      park_dict ''CN-0007'' ''Gone'' [] (PBool False) PNone] \<and>
   load_parks_from_csv (Some [example_row])
     (initial_app\<lparr>all_parks :=
        [park_dict ''CN-0012'' ''Old name'' [] (PBool True) (PStr ''2024-05-01''),
         park_dict ''CN-0007'' ''Gone'' [] (PBool False) PNone]\<rparr>) =
     (Inr 1, initial_app\<lparr>all_parks :=
        [park_dict ''CN-0012'' ''Test Park'' [''CN-AH''] (PBool True) (PStr ''2024-05-01'')]\<rparr>) \<and>
   Some (PStr ''CN-0007'') \<notin> set (map (field ''reference'')
     (all_parks (snd (load_parks_from_csv (Some [example_row])
       (initial_app\<lparr>all_parks :=
          [park_dict ''CN-0012'' ''Old name'' [] (PBool True) (PStr ''2024-05-01''),
           park_dict ''CN-0007'' ''Gone'' [] (PBool False) PNone]\<rparr>)))))"
proof -
  let ?old = "[park_dict ''CN-0012'' ''Old name'' [] (PBool True) (PStr ''2024-05-01''),
      park_dict ''CN-0007'' ''Gone'' [] (PBool False) PNone]"
  let ?w = "initial_app\<lparr>all_parks := ?old\<rparr>"
  have h: "list_all is_park (all_parks ?w)"
    by (simp add: is_park_park_dict)
  note merged = load_parks_from_csv_merge [OF h, of "[example_row]"]
  have n: "fst (load_parks_from_csv (Some [example_row]) ?w) = Inr 1"
    using merged by (simp add: example_complete)
  have "\<forall>row \<in> set [example_row]. map_of row ''reference'' \<noteq> Some ''CN-0007''"
    by (simp add: example_fields)
  with merged have gone: "\<forall>r \<in> set (all_parks (snd (load_parks_from_csv (Some [example_row]) ?w))).
           field ''reference'' r \<noteq> Some (PStr ''CN-0007'')"
    by blast
  have l: "last_with_reference ''CN-0012'' ?old =
             Some (park_dict ''CN-0012'' ''Old name'' [] (PBool True) (PStr ''2024-05-01''))"
    by (simp add: last_with_reference_def)
  obtain ex where ex: "build_existing (all_parks ?w) [] = Inr ex"
    using parks_build_existing [OF h] by blast
  have s: "snd (load_parks_from_csv (Some [example_row]) ?w) =
          initial_app\<lparr>all_parks :=
        [park_dict ''CN-0012'' ''Test Park'' [''CN-AH''] (PBool True) (PStr ''2024-05-01'')]\<rparr>"
    using load_parks_from_csv_shaped [OF ex, of "[example_row]"] l
    by (simp add: shaped_example carried_def items_park_dict)
  from gone have "Some (PStr ''CN-0007'') \<notin> set (map (field ''reference'')
     (all_parks (snd (load_parks_from_csv (Some [example_row]) ?w))))"
    by auto
  with n s h show ?thesis
    by (simp add: prod_eq_iff)
qed

text \<open>
  C5 (import twice), as stated, fails where two rows share a reference: after the
  import of the same row twice, the activation of its reference changes the first of
  the two records, and the second import takes the activation fields of both records
  from the last one, which is not activated.
\<close>

theorem reimport_loses_activation:
  "all_parks (snd (prompt_activation ''CN-0012'' (Some ''2024-05-01'')
      (snd (load_parks_from_csv (Some [example_row, example_row]) initial_app)))) =
     [park_dict ''CN-0012'' ''Test Park'' [''CN-AH''] (PBool True) (PStr ''2024-05-01''),
      park_dict ''CN-0012'' ''Test Park'' [''CN-AH''] (PBool False) PNone] \<and>
   all_parks (snd (load_parks_from_csv (Some [example_row, example_row])
      (snd (prompt_activation ''CN-0012'' (Some ''2024-05-01'')
        (snd (load_parks_from_csv (Some [example_row, example_row]) initial_app)))))) =
     [park_dict ''CN-0012'' ''Test Park'' [''CN-AH''] (PBool False) PNone,
      park_dict ''CN-0012'' ''Test Park'' [''CN-AH''] (PBool False) PNone]"
proof -
  let ?w1 = "snd (load_parks_from_csv (Some [example_row, example_row]) initial_app)"
  let ?w2 = "snd (prompt_activation ''CN-0012'' (Some ''2024-05-01'') ?w1)"
  have w2: "all_parks ?w2 =
     [park_dict ''CN-0012'' ''Test Park'' [''CN-AH''] (PBool True) (PStr ''2024-05-01''),
      park_dict ''CN-0012'' ''Test Park'' [''CN-AH''] (PBool False) PNone]"
    by (simp add: load_example_twice_initial activate_example)
  have ex: "build_existing (all_parks ?w2) [] =
     Inr [(PStr ''CN-0012'',
           items (park_dict ''CN-0012'' ''Test Park'' [''CN-AH''] (PBool False) PNone))]"
    unfolding w2 by (rule build_existing_example_pair)
  have "carried ''activated'' (PBool False) (all_parks ?w2) ''CN-0012'' = PBool False"
       "carried ''activation_time'' PNone (all_parks ?w2) ''CN-0012'' = PNone"
    unfolding w2
    by (simp_all add: carried_def last_with_reference_def items_park_dict)
  with load_parks_from_csv_shaped [OF ex, of "[example_row, example_row]"]
  have "all_parks (snd (load_parks_from_csv (Some [example_row, example_row]) ?w2)) =
     [park_dict ''CN-0012'' ''Test Park'' [''CN-AH''] (PBool False) PNone,
      park_dict ''CN-0012'' ''Test Park'' [''CN-AH''] (PBool False) PNone]"
    by (simp add: shaped_example_twice)
  with w2 show ?thesis by simp
qed

text \<open>
  C5 (import twice), amended. When an import has succeeded, importing the same rows
  again returns the same count and leaves the state as it is; and the same holds after
  any run of activations recorded in between in which every activated reference is
  carried by at most one of the rows that are not skipped, so that the second import
  keeps every one of these activations.
\<close>

theorem load_parks_from_csv_reimport:
  assumes first: "load_parks_from_csv (Some rows) w = (Inr n, w1)"
  shows "load_parks_from_csv (Some rows) w1 = (Inr n, w1) \<and>
         (activated_once rows acts \<longrightarrow>
            load_parks_from_csv (Some rows) (record_activations acts w1) =
              (Inr n, record_activations acts w1))"
proof -
  let ?A = "carried ''activated'' (PBool False) (all_parks w)"
  let ?T = "carried ''activation_time'' PNone (all_parks w)"
  from load_parks_from_csv_InrD [OF first]
  have n: "n = length (filter row_complete rows)" and w1: "w1 = w\<lparr>all_parks := shaped ?A ?T rows\<rparr>"
    by simp_all
  have idem: "load_parks_from_csv (Some rows) w1 = (Inr n, w1)"
    unfolding w1 n by (rule import_fixpoint)
  have acts: "load_parks_from_csv (Some rows) (record_activations acts w1) =
                (Inr n, record_activations acts w1)"
    if once: "activated_once rows acts"
  proof -
    have "all_parks w1 = shaped ?A ?T rows" by (simp add: w1)
    from record_activations_shaped [OF once this] obtain A' T' where
      sh: "all_parks (record_activations acts w1) = shaped A' T' rows" by blast
    have "(record_activations acts w1)\<lparr>all_parks := shaped A' T' rows\<rparr> = record_activations acts w1"
      using sh by simp
    with import_fixpoint [where rows = rows and w = "record_activations acts w1" and A = A' and T = T'] show ?thesis
      by (simp add: n)
  qed
  from idem acts show ?thesis by blast
qed

text \<open>
  The example row twice and a second row: the references of the rows are not distinct,
  \<^verbatim>\<open>CN-0002\<close> is carried by one row, and its activation survives the second import.
\<close>

theorem load_parks_from_csv_reimport_witness:
  "load_parks_from_csv (Some [example_row, example_row, second_row]) initial_app =
     (Inr 3, initial_app\<lparr>all_parks :=
        [park_dict ''CN-0012'' ''Test Park'' [''CN-AH''] (PBool False) PNone,
         park_dict ''CN-0012'' ''Test Park'' [''CN-AH''] (PBool False) PNone,
         park_dict ''CN-0002'' ''Second Park'' [''CN-BJ''] (PBool False) PNone]\<rparr>) \<and>
   \<not> distinct (imported_references [example_row, example_row, second_row]) \<and>
   activated_once [example_row, example_row, second_row] [(''CN-0002'', Some ''2024-05-01'')] \<and>
   load_parks_from_csv (Some [example_row, example_row, second_row])
     (initial_app\<lparr>all_parks :=
        [park_dict ''CN-0012'' ''Test Park'' [''CN-AH''] (PBool False) PNone,
         park_dict ''CN-0012'' ''Test Park'' [''CN-AH''] (PBool False) PNone,
         park_dict ''CN-0002'' ''Second Park'' [''CN-BJ''] (PBool False) PNone]\<rparr>) =
     (Inr 3, initial_app\<lparr>all_parks :=
        [park_dict ''CN-0012'' ''Test Park'' [''CN-AH''] (PBool False) PNone,
         park_dict ''CN-0012'' ''Test Park'' [''CN-AH''] (PBool False) PNone,
         park_dict ''CN-0002'' ''Second Park'' [''CN-BJ''] (PBool False) PNone]\<rparr>) \<and>
   all_parks (record_activations [(''CN-0002'', Some ''2024-05-01'')]
     (initial_app\<lparr>all_parks :=
        [park_dict ''CN-0012'' ''Test Park'' [''CN-AH''] (PBool False) PNone,
         park_dict ''CN-0012'' ''Test Park'' [''CN-AH''] (PBool False) PNone,
         park_dict ''CN-0002'' ''Second Park'' [''CN-BJ''] (PBool False) PNone]\<rparr>)) =
     [park_dict ''CN-0012'' ''Test Park'' [''CN-AH''] (PBool False) PNone,
      park_dict ''CN-0012'' ''Test Park'' [''CN-AH''] (PBool False) PNone,
      park_dict ''CN-0002'' ''Second Park'' [''CN-BJ''] (PBool True) (PStr ''2024-05-01'')] \<and>
   all_parks (snd (load_parks_from_csv (Some [example_row, example_row, second_row])
     (record_activations [(''CN-0002'', Some ''2024-05-01'')]
       (initial_app\<lparr>all_parks :=
          [park_dict ''CN-0012'' ''Test Park'' [''CN-AH''] (PBool False) PNone,
           park_dict ''CN-0012'' ''Test Park'' [''CN-AH''] (PBool False) PNone,
           park_dict ''CN-0002'' ''Second Park'' [''CN-BJ''] (PBool False) PNone]\<rparr>)))) =
     [park_dict ''CN-0012'' ''Test Park'' [''CN-AH''] (PBool False) PNone,
      park_dict ''CN-0012'' ''Test Park'' [''CN-AH''] (PBool False) PNone,
      park_dict ''CN-0002'' ''Second Park'' [''CN-BJ''] (PBool True) (PStr ''2024-05-01'')]"
proof -
  let ?rows = "[example_row, example_row, second_row]"
  let ?acts = "[(''CN-0002'', Some ''2024-05-01'')]"
  let ?w1 = "initial_app\<lparr>all_parks :=
        [park_dict ''CN-0012'' ''Test Park'' [''CN-AH''] (PBool False) PNone,
         park_dict ''CN-0012'' ''Test Park'' [''CN-AH''] (PBool False) PNone,
         park_dict ''CN-0002'' ''Second Park'' [''CN-BJ''] (PBool False) PNone]\<rparr>"
  have refs: "imported_references ?rows = [''CN-0012'', ''CN-0012'', ''CN-0002'']"
    by (simp add: imported_references_def example_complete second_complete
          example_fields second_fields)
  have d: "\<not> distinct (imported_references ?rows)"
    unfolding refs by simp
  have o: "activated_once ?rows ?acts"
    unfolding activated_once_def refs by simp
  have a: "all_parks (record_activations ?acts ?w1) =
     [park_dict ''CN-0012'' ''Test Park'' [''CN-AH''] (PBool False) PNone,
      park_dict ''CN-0012'' ''Test Park'' [''CN-AH''] (PBool False) PNone,
      park_dict ''CN-0002'' ''Second Park'' [''CN-BJ''] (PBool True) (PStr ''2024-05-01'')]"
    unfolding record_activations.simps fst_conv snd_conv by (rule activate_third)
  note reimport = load_parks_from_csv_reimport [OF load_example_three_initial, of ?acts]
  from reimport have i: "load_parks_from_csv (Some ?rows) ?w1 = (Inr 3, ?w1)"
    by (rule conjunct1)
  from mp [OF conjunct2 [OF reimport] o]
  have k: "load_parks_from_csv (Some ?rows) (record_activations ?acts ?w1) =
        (Inr 3, record_activations ?acts ?w1)" .
  have k': "all_parks (snd (load_parks_from_csv (Some ?rows) (record_activations ?acts ?w1))) =
     [park_dict ''CN-0012'' ''Test Park'' [''CN-AH''] (PBool False) PNone,
      park_dict ''CN-0012'' ''Test Park'' [''CN-AH''] (PBool False) PNone,
      park_dict ''CN-0002'' ''Second Park'' [''CN-BJ''] (PBool True) (PStr ''2024-05-01'')]"
    unfolding k snd_conv by (rule a)
  from load_example_three_initial d o i a k' show ?thesis
    by (intro conjI)
qed

section \<open>Filtering by province\<close>

text \<open>
  C6 (filter). On a catalog of Park records, with a dict as configuration,
  \<^verbatim>\<open>filter_parks\<close> returns normally, leaves the catalog as it is and hands to the
  table the records whose provinces contain the selected code, in catalog order; with
  the "all provinces" selection it hands over the whole catalog.
\<close>

theorem filter_parks_selects:
  assumes parks: "list_all is_park (all_parks w)"
    and cfg: "config w = PDict cfg"
  shows "fst (filter_parks w) = Inr () \<and>
         all_parks (snd (filter_parks w)) = all_parks w \<and>
         table_data (snd (filter_parks w)) =
           (case current_code w of
              None \<Rightarrow> all_parks w
            | Some c \<Rightarrow> filter (has_province c) (all_parks w))"
proof (cases "current_code w")
  case None
  with parks cfg show ?thesis
    by (simp add: filter_parks_def Let_def update_activation_buttons_parks)
next
  case (Some c)
  with parks cfg show ?thesis
    by (simp add: filter_parks_def Let_def filter_by_code_parks
          update_activation_buttons_parks list_all_filter)
qed

text \<open>
  Three parks, two of them in \<^verbatim>\<open>CN-AH\<close>.
\<close>

theorem filter_parks_selects_witness:
  "list_all is_park
     [park_dict ''CN-0001'' ''A'' [''CN-AH''] (PBool False) PNone,
      park_dict ''CN-0002'' ''B'' [''CN-BJ''] (PBool False) PNone,
      park_dict ''CN-0003'' ''C'' [''CN-BJ'', ''CN-AH''] (PBool False) PNone] \<and>
   config initial_app = PDict [] \<and>
   table_data (snd (filter_parks (initial_app\<lparr>all_parks :=
     [park_dict ''CN-0001'' ''A'' [''CN-AH''] (PBool False) PNone,
      park_dict ''CN-0002'' ''B'' [''CN-BJ''] (PBool False) PNone,
      park_dict ''CN-0003'' ''C'' [''CN-BJ'', ''CN-AH''] (PBool False) PNone],
     current_code := Some ''CN-AH''\<rparr>))) =
     [park_dict ''CN-0001'' ''A'' [''CN-AH''] (PBool False) PNone,
      park_dict ''CN-0003'' ''C'' [''CN-BJ'', ''CN-AH''] (PBool False) PNone] \<and>
   table_data (snd (filter_parks (initial_app\<lparr>all_parks :=
     [park_dict ''CN-0001'' ''A'' [''CN-AH''] (PBool False) PNone,
      park_dict ''CN-0002'' ''B'' [''CN-BJ''] (PBool False) PNone,
      park_dict ''CN-0003'' ''C'' [''CN-BJ'', ''CN-AH''] (PBool False) PNone]\<rparr>))) =
     [park_dict ''CN-0001'' ''A'' [''CN-AH''] (PBool False) PNone,
      park_dict ''CN-0002'' ''B'' [''CN-BJ''] (PBool False) PNone,
      park_dict ''CN-0003'' ''C'' [''CN-BJ'', ''CN-AH''] (PBool False) PNone]"
proof -
  let ?ps = "[park_dict ''CN-0001'' ''A'' [''CN-AH''] (PBool False) PNone,
      park_dict ''CN-0002'' ''B'' [''CN-BJ''] (PBool False) PNone,
      park_dict ''CN-0003'' ''C'' [''CN-BJ'', ''CN-AH''] (PBool False) PNone]"
  let ?w = "initial_app\<lparr>all_parks := ?ps\<rparr>"
  have h: "list_all is_park ?ps"
    by (simp add: is_park_park_dict)
  have c: "config initial_app = PDict []"
    by (simp add: initial_app_def)
  have h1: "list_all is_park (all_parks (?w\<lparr>current_code := Some ''CN-AH''\<rparr>))"
    and c1: "config (?w\<lparr>current_code := Some ''CN-AH''\<rparr>) = PDict []"
    and h2: "list_all is_park (all_parks ?w)" and c2: "config ?w = PDict []"
    using h c by simp_all
  have hp: "filter (has_province ''CN-AH'') ?ps =
     [park_dict ''CN-0001'' ''A'' [''CN-AH''] (PBool False) PNone,
      park_dict ''CN-0003'' ''C'' [''CN-BJ'', ''CN-AH''] (PBool False) PNone]"
    by (simp add: has_province_def)
  from filter_parks_selects [OF h1 c1] filter_parks_selects [OF h2 c2] hp h c
  show ?thesis
    by (simp add: initial_app_def)
qed

section \<open>Invariants of the catalog\<close>

text \<open>
  C7 (activation invariant). If in every record of the catalog \<open>activated\<close> is true
  exactly when \<open>activation_time\<close> is not null, then the same holds of the catalog that
  \<^verbatim>\<open>prompt_activation\<close> leaves, whatever the reference and the outcome of the dialog,
  and of the catalog that an import leaves, whatever the CSV file.
\<close>

theorem activation_consistent_preserved:
  assumes inv: "list_all activation_consistent (all_parks w)"
  shows "list_all activation_consistent (all_parks (snd (prompt_activation ref dlg w))) \<and>
         list_all activation_consistent (all_parks (snd (load_parks_from_csv csv w)))"
proof
  show "list_all activation_consistent (all_parks (snd (prompt_activation ref dlg w)))"
    using prompt_activation_all_parks [of ref dlg w]
  proof
    assume "all_parks (snd (prompt_activation ref dlg w)) = all_parks w"
    with inv show ?thesis by simp
  next
    assume "\<exists>i date p'. dlg = Some date \<and> find_park ref (all_parks w) = Inr (Some i) \<and>
      activate_record (all_parks w ! i) date = Inr p' \<and>
      all_parks (snd (prompt_activation ref dlg w)) = (all_parks w)[i := p']"
    then obtain i date p' where
      p': "activate_record (all_parks w ! i) date = Inr p'"
      and new: "all_parks (snd (prompt_activation ref dlg w)) = (all_parks w)[i := p']"
      by blast
    have "set ((all_parks w)[i := p']) \<subseteq> insert p' (set (all_parks w))"
      by (rule set_update_subset_insert)
    with inv activate_record_consistent [OF p'] show ?thesis
      unfolding new by (auto simp: list_all_iff)
  qed
next
  show "list_all activation_consistent (all_parks (snd (load_parks_from_csv csv w)))"
  proof (cases "build_existing (all_parks w) []")
    case (Inl e)
    with inv show ?thesis by (simp add: load_parks_from_csv_def)
  next
    case (Inr ex)
    show ?thesis
    proof (cases csv)
      case None
      with inv Inr show ?thesis by (simp add: load_parks_from_csv_def)
    next
      case (Some rows)
      show ?thesis
        unfolding Some load_parks_from_csv_shaped [OF Inr]
        by (simp add: shaped_def list_all_iff activation_consistent_park_dict
              carried_consistent [OF inv])
    qed
  qed
qed

text \<open>
  An unactivated park satisfies the invariant and so does the park after its activation.
\<close>

theorem activation_consistent_preserved_witness:
  "list_all activation_consistent
     [park_dict ''CN-0012'' ''Test Park'' [''CN-AH''] (PBool False) PNone] \<and>
   list_all activation_consistent
     [park_dict ''CN-0012'' ''Test Park'' [''CN-AH''] (PBool True) (PStr ''2024-05-01'')] \<and>
   all_parks (snd (prompt_activation ''CN-0012'' (Some ''2024-05-01'')
     (initial_app\<lparr>all_parks :=
        [park_dict ''CN-0012'' ''Test Park'' [''CN-AH''] (PBool False) PNone]\<rparr>))) =
     [park_dict ''CN-0012'' ''Test Park'' [''CN-AH''] (PBool True) (PStr ''2024-05-01'')]"
proof -
  let ?w = "initial_app\<lparr>all_parks :=
        [park_dict ''CN-0012'' ''Test Park'' [''CN-AH''] (PBool False) PNone]\<rparr>"
  have h: "list_all activation_consistent (all_parks ?w)"
    by (simp add: activation_consistent_park_dict)
  from activation_consistent_preserved [OF h, of "''CN-0012''" "Some ''2024-05-01''" None]
  have "list_all activation_consistent
          (all_parks (snd (prompt_activation ''CN-0012'' (Some ''2024-05-01'') ?w)))"
    by blast
  with h show ?thesis
    by (simp add: activate_example)
qed

text \<open>
  C8 (unique references), as stated, fails: the import of a CSV with the same row twice
  yields two records with the same reference.
\<close>

theorem import_duplicate_references:
  "map (field ''reference'')
     (all_parks (snd (load_parks_from_csv (Some [example_row, example_row]) initial_app))) =
   [Some (PStr ''CN-0012''), Some (PStr ''CN-0012'')]"
  by (simp add: load_example_twice_initial)

text \<open>
  C8 (unique references), amended. The references of an imported catalog are the
  references of the rows that are not skipped, in order, so that no two records share a
  reference exactly when no two such rows do; and an activation leaves the references
  of a catalog as they are.
\<close>

theorem load_parks_from_csv_references:
  assumes "build_existing (all_parks w) [] = Inr ex"
  shows "map (field ''reference'') (all_parks (snd (load_parks_from_csv (Some rows) w))) =
           map (\<lambda>r. Some (PStr r)) (imported_references rows) \<and>
         distinct (map (field ''reference'') (all_parks (snd (load_parks_from_csv (Some rows) w)))) =
           distinct (imported_references rows) \<and>
         map (field ''reference'') (all_parks (snd (prompt_activation ref dlg w'))) =
           map (field ''reference'') (all_parks w')"
proof -
  have refs: "map (field ''reference'') (all_parks (snd (load_parks_from_csv (Some rows) w))) =
           map (\<lambda>r. Some (PStr r)) (imported_references rows)"
    by (simp add: load_parks_from_csv_shaped [OF assms] references_shaped)
  have "inj_on (\<lambda>r. Some (PStr r)) (set (imported_references rows))"
    by (simp add: inj_on_def)
  then have "distinct (map (\<lambda>r. Some (PStr r)) (imported_references rows)) =
             distinct (imported_references rows)"
    by (simp add: distinct_map)
  with refs prompt_activation_references show ?thesis by simp
qed

text \<open>
  The import of the single example row yields a catalog with distinct references.
\<close>

theorem load_parks_from_csv_references_witness:
  "build_existing (all_parks initial_app) [] = Inr [] \<and>
   distinct (imported_references [example_row]) \<and>
   distinct (map (field ''reference'')
     (all_parks (snd (load_parks_from_csv (Some [example_row]) initial_app))))"
proof -
  have h: "build_existing (all_parks initial_app) [] = Inr []"
    by (simp add: initial_app_def)
  have d: "distinct (imported_references [example_row])"
    by (simp add: imported_references_def)
  from load_parks_from_csv_references [OF h, of "[example_row]"] d h
  show ?thesis by blast
qed

section \<open>Loading the catalog file\<close>

text \<open>
  C9 (catalog load). Starting from the empty catalog that \<^verbatim>\<open>__init__\<close> sets up:
  without the file, the load returns and the catalog stays empty; with a file that is
  not valid JSON, the load raises \<^verbatim>\<open>JSONDecodeError\<close>; with a file whose top level is
  not an array, the load returns and the catalog stays empty; an array becomes the
  catalog.
\<close>

theorem load_parks_from_json_cases:
  assumes "all_parks w = []"
  shows "(map_of (disk w) PARKS_DATA_FILE = None \<longrightarrow>
            load_parks_from_json w = (Inr (), w)) \<and>
         (map_of (disk w) PARKS_DATA_FILE = Some Malformed \<longrightarrow>
            load_parks_from_json w = (Inl JSONDecodeError, w)) \<and>
         (\<forall>data. map_of (disk w) PARKS_DATA_FILE = Some (Json data) \<and> \<not> is_list data \<longrightarrow>
            load_parks_from_json w = (Inr (), w)) \<and>
         (\<forall>xs. map_of (disk w) PARKS_DATA_FILE = Some (Json (PList xs)) \<longrightarrow>
            load_parks_from_json w = (Inr (), w\<lparr>all_parks := xs\<rparr>)) \<and>
         (map_of (disk w) PARKS_DATA_FILE = None \<or>
          (\<exists>data. map_of (disk w) PARKS_DATA_FILE = Some (Json data) \<and> \<not> is_list data) \<longrightarrow>
            all_parks (snd (load_parks_from_json w)) = [])"
proof -
  have not_list: "load_parks_from_json w = (Inr (), w)"
    if "map_of (disk w) PARKS_DATA_FILE = Some (Json data)" "\<not> is_list data" for data
    using that by (cases data) (simp_all add: load_parks_from_json_def)
  show ?thesis
    using assms not_list by (auto simp: load_parks_from_json_def)
qed

text \<open>
  No file, a malformed file, and a file with a JSON object at the top level.
\<close>

theorem load_parks_from_json_cases_witness:
  "all_parks initial_app = [] \<and>
   load_parks_from_json initial_app = (Inr (), initial_app) \<and>
   load_parks_from_json (initial_app\<lparr>disk := [(PARKS_DATA_FILE, Malformed)]\<rparr>) =
     (Inl JSONDecodeError, initial_app\<lparr>disk := [(PARKS_DATA_FILE, Malformed)]\<rparr>) \<and>
   all_parks (snd (load_parks_from_json
     (initial_app\<lparr>disk := [(PARKS_DATA_FILE, Json (PDict [(''parks'', PList [])]))]\<rparr>))) = []"
proof -
  have h0: "all_parks initial_app = []"
    and h1: "all_parks (initial_app\<lparr>disk := [(PARKS_DATA_FILE, Malformed)]\<rparr>) = []"
    and h2: "all_parks (initial_app\<lparr>disk :=
               [(PARKS_DATA_FILE, Json (PDict [(''parks'', PList [])]))]\<rparr>) = []"
    by (simp_all add: initial_app_def)
  have d0: "map_of (disk initial_app) PARKS_DATA_FILE = None"
    by (simp add: initial_app_def)
  from load_parks_from_json_cases [OF h0] d0
  have a: "load_parks_from_json initial_app = (Inr (), initial_app)" by blast
  from load_parks_from_json_cases [OF h1]
  have b: "load_parks_from_json (initial_app\<lparr>disk := [(PARKS_DATA_FILE, Malformed)]\<rparr>) =
     (Inl JSONDecodeError, initial_app\<lparr>disk := [(PARKS_DATA_FILE, Malformed)]\<rparr>)"
    by simp
  have "map_of (disk (initial_app\<lparr>disk :=
               [(PARKS_DATA_FILE, Json (PDict [(''parks'', PList [])]))]\<rparr>)) PARKS_DATA_FILE =
          Some (Json (PDict [(''parks'', PList [])])) \<and> \<not> is_list (PDict [(''parks'', PList [])])"
    by simp
  with load_parks_from_json_cases [OF h2]
  have c: "all_parks (snd (load_parks_from_json
     (initial_app\<lparr>disk := [(PARKS_DATA_FILE, Json (PDict [(''parks'', PList [])]))]\<rparr>))) = []"
    by blast
  from h0 a b c show ?thesis by blast
qed

text \<open>
  C10 (missing provinces), as stated, fails on the kind of exception: a loaded catalog
  whose second record lacks \<open>provinces\<close> and whose first record has a number there makes
  the filter raise \<^verbatim>\<open>TypeError\<close> at the first record.
\<close>

theorem filter_parks_TypeError_first:
  "all_parks (snd (load_parks_from_json
     (initial_app\<lparr>disk := [(PARKS_DATA_FILE,
         Json (PList
           [PDict [(''reference'', PStr ''CN-0001''), (''name'', PStr ''A''),
                   (''provinces'', PInt 5), (''activated'', PBool False),
                   (''activation_time'', PNone)],
            PDict [(''reference'', PStr ''CN-0002''), (''name'', PStr ''B''),
                   (''activated'', PBool False), (''activation_time'', PNone)]]))]\<rparr>))) =
     [PDict [(''reference'', PStr ''CN-0001''), (''name'', PStr ''A''),
             (''provinces'', PInt 5), (''activated'', PBool False),
             (''activation_time'', PNone)],
      PDict [(''reference'', PStr ''CN-0002''), (''name'', PStr ''B''),
             (''activated'', PBool False), (''activation_time'', PNone)]] \<and>
   field ''provinces''
     (PDict [(''reference'', PStr ''CN-0002''), (''name'', PStr ''B''),
             (''activated'', PBool False), (''activation_time'', PNone)]) = None \<and>
   fst (filter_parks ((snd (load_parks_from_json
     (initial_app\<lparr>disk := [(PARKS_DATA_FILE,
         Json (PList
           [PDict [(''reference'', PStr ''CN-0001''), (''name'', PStr ''A''),
                   (''provinces'', PInt 5), (''activated'', PBool False),
                   (''activation_time'', PNone)],
            PDict [(''reference'', PStr ''CN-0002''), (''name'', PStr ''B''),
                   (''activated'', PBool False), (''activation_time'', PNone)]]))]\<rparr>)))
       \<lparr>current_code := Some ''CN-AH''\<rparr>)) = Inl TypeError"
  by (simp add: load_parks_from_json_def initial_app_def filter_parks_def Let_def)

text \<open>
  C10 (missing provinces), amended. With a province code selected and a record without
  \<open>provinces\<close> in the catalog, \<^verbatim>\<open>filter_parks\<close> raises \<^verbatim>\<open>KeyError\<close> or
  \<^verbatim>\<open>TypeError\<close> and hands nothing to the table. It raises \<^verbatim>\<open>KeyError\<close> exactly
  when the configuration is a dict and the first record whose \<open>provinces\<close> cannot be
  tested is a dict without the key, in particular when the filter passes every record
  before such a dict; in every other case it raises \<^verbatim>\<open>TypeError\<close>.
\<close>

theorem filter_parks_missing_provinces:
  assumes code: "current_code w = Some c"
    and p: "p \<in> set (all_parks w)"
    and missing: "field ''provinces'' p = None"
  shows "(fst (filter_parks w) = Inl KeyError \<or> fst (filter_parks w) = Inl TypeError) \<and>
         table_data (snd (filter_parks w)) = table_data w \<and>
         (fst (filter_parks w) = Inl KeyError) =
           (\<exists>cfg good d rest.
              config w = PDict cfg \<and> all_parks w = good @ PDict d # rest \<and>
              map_of d ''provinces'' = None \<and> list_all filterable good) \<and>
         (\<forall>cfg good d rest kept.
            config w = PDict cfg \<and> all_parks w = good @ PDict d # rest \<and>
            map_of d ''provinces'' = None \<and> filter_by_code c good = Inr kept \<longrightarrow>
            fst (filter_parks w) = Inl KeyError)"
proof -
  from filter_by_code_missing [OF p missing] obtain e where
    e: "filter_by_code c (all_parks w) = Inl e" by blast
  from filter_by_code_first_failure [OF e] obtain good q rest where
    split: "all_parks w = good @ q # rest" "list_all filterable good"
    and kind: "(e = KeyError \<and> (\<exists>d. q = PDict d \<and> map_of d ''provinces'' = None)) \<or>
               e = TypeError"
    by blast
  have table: "table_data (snd (filter_parks w)) = table_data w"
    using code e by (cases "config w") (simp_all add: filter_parks_def Let_def save_config_def)
  have key: "fst (filter_parks w) = Inl KeyError"
    if "config w = PDict cfg" "all_parks w = good' @ PDict d # rest'"
       "map_of d ''provinces'' = None" "filter_by_code c good' = Inr kept"
    for cfg good' d rest' kept
    using that code filter_by_code_KeyError [of c good' kept d rest']
    by (simp add: filter_parks_def Let_def)
  show ?thesis
  proof (cases "config w")
    case (PDict cfg)
    then have result: "fst (filter_parks w) = Inl e"
      using code e by (simp add: filter_parks_def Let_def)
    have either: "fst (filter_parks w) = Inl KeyError \<or> fst (filter_parks w) = Inl TypeError"
      using result kind by auto
    have iff: "(fst (filter_parks w) = Inl KeyError) =
           (\<exists>cfg good d rest.
              config w = PDict cfg \<and> all_parks w = good @ PDict d # rest \<and>
              map_of d ''provinces'' = None \<and> list_all filterable good)"
    proof
      assume "fst (filter_parks w) = Inl KeyError"
      with result have "e = KeyError" by simp
      with kind obtain d where "q = PDict d" "map_of d ''provinces'' = None" by auto
      with split PDict show "\<exists>cfg good d rest.
              config w = PDict cfg \<and> all_parks w = good @ PDict d # rest \<and>
              map_of d ''provinces'' = None \<and> list_all filterable good"
        by blast
    next
      assume "\<exists>cfg good d rest.
              config w = PDict cfg \<and> all_parks w = good @ PDict d # rest \<and>
              map_of d ''provinces'' = None \<and> list_all filterable good"
      then obtain cfg' good' d rest' where
        g: "config w = PDict cfg'" "all_parks w = good' @ PDict d # rest'"
           "map_of d ''provinces'' = None" "list_all filterable good'"
        by blast
      from filter_by_code_filterable [OF g(4), of c] obtain kept where
        "filter_by_code c good' = Inr kept" by blast
      with g show "fst (filter_parks w) = Inl KeyError"
        by (intro key)
    qed
    from either table iff key show ?thesis by blast
  next
    case PNone
    then have "fst (filter_parks w) = Inl TypeError"
      by (simp add: filter_parks_def Let_def)
    with table PNone key show ?thesis by auto
  next
    case (PBool b)
    then have "fst (filter_parks w) = Inl TypeError"
      by (simp add: filter_parks_def Let_def)
    with table PBool key show ?thesis by auto
  next
    case (PInt i)
    then have "fst (filter_parks w) = Inl TypeError"
      by (simp add: filter_parks_def Let_def)
    with table PInt key show ?thesis by auto
  next
    case (PStr s)
    then have "fst (filter_parks w) = Inl TypeError"
      by (simp add: filter_parks_def Let_def)
    with table PStr key show ?thesis by auto
  next
    case (PList xs)
    then have "fst (filter_parks w) = Inl TypeError"
      by (simp add: filter_parks_def Let_def)
    with table PList key show ?thesis by auto
  qed
qed

text \<open>
  A Park record followed by a record without \<open>provinces\<close>: the filter raises
  \<^verbatim>\<open>KeyError\<close>.
\<close>

theorem filter_parks_missing_provinces_witness:
  "current_code (initial_app\<lparr>all_parks :=
       [park_dict ''CN-0001'' ''A'' [''CN-AH''] (PBool False) PNone,
        PDict [(''reference'', PStr ''CN-0002'')]],
     current_code := Some ''CN-AH''\<rparr>) = Some ''CN-AH'' \<and>
   field ''provinces'' (PDict [(''reference'', PStr ''CN-0002'')]) = None \<and>
   list_all filterable [park_dict ''CN-0001'' ''A'' [''CN-AH''] (PBool False) PNone] \<and>
   fst (filter_parks (initial_app\<lparr>all_parks :=
       [park_dict ''CN-0001'' ''A'' [''CN-AH''] (PBool False) PNone,
        PDict [(''reference'', PStr ''CN-0002'')]],
     current_code := Some ''CN-AH''\<rparr>)) = Inl KeyError \<and>
   table_data (snd (filter_parks (initial_app\<lparr>all_parks :=
       [park_dict ''CN-0001'' ''A'' [''CN-AH''] (PBool False) PNone,
        PDict [(''reference'', PStr ''CN-0002'')]],
     current_code := Some ''CN-AH''\<rparr>))) = []"
proof -
  let ?p = "PDict [(''reference'', PStr ''CN-0002'')]"
  let ?good = "[park_dict ''CN-0001'' ''A'' [''CN-AH''] (PBool False) PNone]"
  let ?w = "initial_app\<lparr>all_parks := ?good @ ?p # [], current_code := Some ''CN-AH''\<rparr>"
  have c: "current_code ?w = Some ''CN-AH''" by simp
  have p: "?p \<in> set (all_parks ?w)" by simp
  have m: "field ''provinces'' ?p = None" by simp
  have f: "list_all filterable ?good"
    by (simp add: filterable_def)
  have k: "\<exists>cfg good d rest.
              config ?w = PDict cfg \<and> all_parks ?w = good @ PDict d # rest \<and>
              map_of d ''provinces'' = None \<and> list_all filterable good"
  proof (intro exI conjI)
    show "config ?w = PDict []" by (simp add: initial_app_def)
    show "all_parks ?w = ?good @ ?p # []" by simp
    show "map_of [(''reference'', PStr ''CN-0002'')] ''provinces'' = None" by simp
    show "list_all filterable ?good" by (rule f)
  qed
  note missing = filter_parks_missing_provinces [OF c p m]
  from missing k have e: "fst (filter_parks ?w) = Inl KeyError" by blast
  from missing have "table_data (snd (filter_parks ?w)) = table_data ?w" by blast
  then have t: "table_data (snd (filter_parks ?w)) = []"
    by (simp add: initial_app_def)
  from c m f e t show ?thesis by simp
qed

end
